theory Spec2Isabelle
  imports Complex_Main "HOL-Library.AList" "HOL-Library.Char_ord" "HOL-Library.List_Lexorder"
begin

section \<open>Python values and builtins used by the runtime\<close>

text \<open>
  Property values travel through the program as \<open>Dict[str, Any]\<close>. The values that occur
  are \<open>None\<close>, booleans, numbers (Python ints and floats, read here as exact reals: the
  development is about exact arithmetic, not IEEE rounding), strings, and the origin
  dictionary \<open>{"x": .., "y": ..}\<close> of \<open>schemas.Origin\<close>.
\<close>

datatype pyval = PNone | PBool bool | PNum real | PStr string | POrigin real real

datatype error = TypeError | ValueError | KeyError | RecursionError | ParseError | PermissionError

text \<open>
  A parsed element of \<open>xml.etree.ElementTree\<close>: tag, attributes (a dictionary, held as
  an association list), the text before the first child (\<open>None\<close> when absent) and the
  child elements in document order.
\<close>

datatype xml = Elem (node_tag: string) (node_attrib: "(string \<times> string) list")
  (node_text: "string option") (node_children: "xml list")

text \<open>
  What the program takes from its environment: the clock behind \<open>_iso_now()\<close> (the n-th
  call returns \<open>iso_at n\<close>), Python's parsing of a string by \<open>float()\<close>, Python's
  \<open>str()\<close> of a value that is not already a string, boolean or \<open>None\<close>, the interpreter's
  recursion limit, the hash functions of \<open>hashlib\<close> (\<open>sha1_json\<close> is the SHA-1
  hex digest of the canonical JSON text of a fingerprint structure), and the XML parser
  \<open>ET.fromstring\<close> (\<open>None\<close> on malformed text).
\<close>

record pyenv =
  iso_at :: "nat \<Rightarrow> string"
  float_of_str :: "string \<Rightarrow> real option"
  str_of :: "pyval \<Rightarrow> string"
  rec_limit :: nat
  sha256_hex :: "string \<Rightarrow> string"
  sha1_json :: "string \<times> (string \<times> string) list \<times> string \<Rightarrow> string"
  parse_xml :: "string \<Rightarrow> xml option"

definition py_float :: "pyenv \<Rightarrow> pyval \<Rightarrow> error + real" where
  "py_float env v =
     (case v of
        PNum r \<Rightarrow> Inr r
      | PBool b \<Rightarrow> Inr (if b then 1 else 0)
      | PStr s \<Rightarrow> (case float_of_str env s of None \<Rightarrow> Inl ValueError | Some r \<Rightarrow> Inr r)
      | PNone \<Rightarrow> Inl TypeError
      | POrigin _ _ \<Rightarrow> Inl TypeError)"

definition py_bool :: "pyval \<Rightarrow> bool" where
  "py_bool v =
     (case v of
        PNone \<Rightarrow> False
      | PBool b \<Rightarrow> b
      | PNum r \<Rightarrow> r \<noteq> 0
      | PStr s \<Rightarrow> s \<noteq> []
      | POrigin _ _ \<Rightarrow> True)"

definition py_str :: "pyenv \<Rightarrow> pyval \<Rightarrow> string" where
  "py_str env v =
     (case v of
        PStr s \<Rightarrow> s
      | PNone \<Rightarrow> ''None''
      | PBool b \<Rightarrow> (if b then ''True'' else ''False'')
      | _ \<Rightarrow> str_of env v)"

section \<open>The compiler: recompilation decision\<close>

text \<open>
  \<open>_sha256_text\<close> and \<open>LayerCompiler.source_checksum\<close>. A manifest is a dictionary of
  strings (\<open>schemas.CompileManifestDocument\<close>), \<open>None\<close> when there is none.
\<close>

definition sha256_text :: "pyenv \<Rightarrow> string \<Rightarrow> string" where
  "sha256_text env v = ''sha256:'' @ sha256_hex env v"

definition source_checksum :: "pyenv \<Rightarrow> string \<Rightarrow> string" where
  "source_checksum env svg_text = sha256_text env svg_text"

type_synonym manifest = "(string \<times> string) list"

text \<open>\<open>not previous_manifest\<close>: true of \<open>None\<close> and of the empty dictionary.\<close>

definition manifest_missing :: "manifest option \<Rightarrow> bool" where
  "manifest_missing pm = (case pm of None \<Rightarrow> True | Some m \<Rightarrow> m = [])"

definition needs_recompile ::
  "pyenv \<Rightarrow> string \<Rightarrow> string \<Rightarrow> manifest option \<Rightarrow> bool \<Rightarrow> bool \<times> string option" where
  "needs_recompile env compiler_version svg_text previous_manifest manual_recompile =
     (if manual_recompile then (True, Some ''manual_recompile'')
      else case previous_manifest of
        None \<Rightarrow> (True, Some ''missing_manifest'')
      | Some m \<Rightarrow>
          if m = [] then (True, Some ''missing_manifest'')
          else if map_of m ''sourceChecksum'' \<noteq> Some (source_checksum env svg_text)
          then (True, Some ''source_checksum_changed'')
          else if map_of m ''compilerVersion'' \<noteq> Some compiler_version
          then (True, Some ''compiler_version_changed'')
          else (False, None))"

text \<open>The four conditions the decision looks at, in the order of the claimed precedence.\<close>

definition checksum_mismatch :: "pyenv \<Rightarrow> string \<Rightarrow> manifest option \<Rightarrow> bool" where
  "checksum_mismatch env svg_text pm =
     (case pm of None \<Rightarrow> True
      | Some m \<Rightarrow> map_of m ''sourceChecksum'' \<noteq> Some (source_checksum env svg_text))"

definition version_mismatch :: "string \<Rightarrow> manifest option \<Rightarrow> bool" where
  "version_mismatch compiler_version pm =
     (case pm of None \<Rightarrow> True
      | Some m \<Rightarrow> map_of m ''compilerVersion'' \<noteq> Some compiler_version)"

section \<open>The compiler: identifiers, fingerprints and geometry\<close>

definition strip_ns :: "string \<Rightarrow> string" where
  "strip_ns tag =
     (if CHR ''}'' \<in> set tag then tl (dropWhile (\<lambda>c. c \<noteq> CHR ''}'') tag) else tag)"

text \<open>\<open>str.strip()\<close>, on the ASCII whitespace characters.\<close>

definition is_space :: "char \<Rightarrow> bool" where
  "is_space c = (c \<in> set [CHR '' '', CHR 0x09, CHR 0x0A, CHR 0x0B, CHR 0x0C, CHR 0x0D,
                            CHR 0x1C, CHR 0x1D, CHR 0x1E, CHR 0x1F])"

definition py_strip :: "string \<Rightarrow> string" where
  "py_strip s = rev (dropWhile is_space (rev (dropWhile is_space s)))"

text \<open>\<open>value.replace("px", "")\<close>: every occurrence, left to right.\<close>

fun remove_px :: "string \<Rightarrow> string" where
  "remove_px (a # b # rest) =
     (if a = CHR ''p'' \<and> b = CHR ''x'' then remove_px rest else a # remove_px (b # rest))"
| "remove_px s = s"

definition to_float :: "pyenv \<Rightarrow> string option \<Rightarrow> real \<Rightarrow> real" where
  "to_float env val dflt =
     (case val of
        None \<Rightarrow> dflt
      | Some v \<Rightarrow>
          (let cleaned = remove_px (py_strip v) in
           if cleaned = [] then dflt
           else case float_of_str env cleaned of None \<Rightarrow> dflt | Some r \<Rightarrow> r))"

text \<open>\<open>str.split()\<close>: the maximal runs of characters that are not whitespace.\<close>

fun split_ws :: "string \<Rightarrow> string \<Rightarrow> string list" where
  "split_ws cur [] = (if cur = [] then [] else [cur])"
| "split_ws cur (c # cs) =
     (if is_space c then (if cur = [] then split_ws [] cs else cur # split_ws [] cs)
      else split_ws (cur @ [c]) cs)"

fun pair_points :: "pyenv \<Rightarrow> string list \<Rightarrow> (real \<times> real) list" where
  "pair_points env (a # b # rest) =
     (to_float env (Some a) 0, to_float env (Some b) 0) # pair_points env rest"
| "pair_points env raw = []"

definition parse_points :: "pyenv \<Rightarrow> string \<Rightarrow> (real \<times> real) list" where
  "parse_points env val =
     pair_points env (split_ws [] (map (\<lambda>c. if c = CHR '','' then CHR '' '' else c) val))"

datatype layer_type = LText | LShape | LGroup | LImage | LUnknown

definition SHAPE_TAGS :: "string list" where
  "SHAPE_TAGS = [''rect'', ''circle'', ''ellipse'', ''line'', ''polygon'', ''polyline'', ''path'']"

definition infer_type :: "string \<Rightarrow> layer_type" where
  "infer_type tag =
     (if tag = ''text'' then LText
      else if tag \<in> set SHAPE_TAGS then LShape
      else if tag = ''g'' then LGroup
      else if tag = ''image'' then LImage
      else LUnknown)"

record capabilities =
  cap_move :: bool
  cap_scale :: bool
  cap_rotate :: bool
  cap_opacity :: bool
  cap_depth :: bool
  cap_effect :: bool
  cap_jitter :: bool
  maxRotation :: "real option"
  minDepth :: "real option"
  maxDepth :: "real option"

definition infer_capabilities :: "layer_type \<Rightarrow> capabilities" where
  "infer_capabilities layer_type =
     \<lparr> cap_move = True, cap_scale = True, cap_rotate = True, cap_opacity = True,
       cap_depth = True,
       cap_effect = (layer_type = LShape \<or> layer_type = LImage \<or> layer_type = LGroup),
       cap_jitter = (layer_type = LShape),
       maxRotation = Some 45, minDepth = Some (- 200), maxDepth = Some 200 \<rparr>"

record bbox =
  box_x :: real
  box_y :: real
  box_width :: real
  box_height :: real
  box_cx :: real
  box_cy :: real

definition zero_bbox :: bbox where
  "zero_bbox = \<lparr> box_x = 0, box_y = 0, box_width = 0, box_height = 0, box_cx = 0, box_cy = 0 \<rparr>"

text \<open>\<open>min\<close> and \<open>max\<close> of a list that is not empty.\<close>

definition min_of :: "real list \<Rightarrow> real" where
  "min_of xs = (case xs of [] \<Rightarrow> 0 | v # vs \<Rightarrow> fold min vs v)"

definition max_of :: "real list \<Rightarrow> real" where
  "max_of xs = (case xs of [] \<Rightarrow> 0 | v # vs \<Rightarrow> fold max vs v)"

definition span_bbox :: "real \<Rightarrow> real \<Rightarrow> real \<Rightarrow> real \<Rightarrow> bbox" where
  "span_bbox min_x min_y max_x max_y =
     (let width = max 0 (max_x - min_x); height = max 0 (max_y - min_y) in
      \<lparr> box_x = min_x, box_y = min_y, box_width = width, box_height = height,
        box_cx = min_x + width / 2, box_cy = min_y + height / 2 \<rparr>)"

definition bbox_union :: "bbox list \<Rightarrow> bbox" where
  "bbox_union boxes =
     (if boxes = [] then zero_bbox
      else span_bbox (min_of (map box_x boxes)) (min_of (map box_y boxes))
             (max_of (map (\<lambda>b. box_x b + box_width b) boxes))
             (max_of (map (\<lambda>b. box_y b + box_height b) boxes)))"

definition bbox_for_element :: "pyenv \<Rightarrow> xml \<Rightarrow> bbox" where
  "bbox_for_element env node =
     (let tag = strip_ns (node_tag node);
          attr = (\<lambda>k. map_of (node_attrib node) k) in
      if tag = ''rect'' then
        (let x = to_float env (attr ''x'') 0; y = to_float env (attr ''y'') 0;
             w = max 0 (to_float env (attr ''width'') 0);
             h = max 0 (to_float env (attr ''height'') 0) in
         \<lparr> box_x = x, box_y = y, box_width = w, box_height = h, box_cx = x + w / 2, box_cy = y + h / 2 \<rparr>)
      else if tag = ''circle'' then
        (let cx = to_float env (attr ''cx'') 0; cy = to_float env (attr ''cy'') 0;
             r = max 0 (to_float env (attr ''r'') 0) in
         \<lparr> box_x = cx - r, box_y = cy - r, box_width = 2 * r, box_height = 2 * r, box_cx = cx, box_cy = cy \<rparr>)
      else if tag = ''ellipse'' then
        (let cx = to_float env (attr ''cx'') 0; cy = to_float env (attr ''cy'') 0;
             rx = max 0 (to_float env (attr ''rx'') 0);
             ry = max 0 (to_float env (attr ''ry'') 0) in
         \<lparr> box_x = cx - rx, box_y = cy - ry, box_width = 2 * rx, box_height = 2 * ry,
           box_cx = cx, box_cy = cy \<rparr>)
      else if tag = ''line'' then
        (let x1 = to_float env (attr ''x1'') 0; y1 = to_float env (attr ''y1'') 0;
             x2 = to_float env (attr ''x2'') 0; y2 = to_float env (attr ''y2'') 0;
             min_x = min x1 x2; min_y = min y1 y2;
             width = \<bar>x2 - x1\<bar>; height = \<bar>y2 - y1\<bar> in
         \<lparr> box_x = min_x, box_y = min_y, box_width = width, box_height = height,
           box_cx = min_x + width / 2, box_cy = min_y + height / 2 \<rparr>)
      else if tag = ''polygon'' \<or> tag = ''polyline'' then
        (let points = parse_points env (case attr ''points'' of None \<Rightarrow> [] | Some p \<Rightarrow> p) in
         if points = [] then zero_bbox
         else span_bbox (min_of (map fst points)) (min_of (map snd points))
                (max_of (map fst points)) (max_of (map snd points)))
      else if tag = ''path'' \<or> tag = ''text'' \<or> tag = ''image'' then
        (let x = to_float env (attr ''x'') 0; y = to_float env (attr ''y'') 0;
             w = max 0 (to_float env (attr ''width'') 1);
             h = max 0 (to_float env (attr ''height'') 1) in
         \<lparr> box_x = x, box_y = y, box_width = w, box_height = h, box_cx = x + w / 2, box_cy = y + h / 2 \<rparr>)
      else zero_bbox)"

text \<open>
  \<open>_fingerprint_for_node\<close>: the first twelve characters of the hash of the tag, the
  attributes other than \<open>id\<close> sorted by key with their values stripped, and the stripped
  text.
\<close>

definition fingerprint_for_node :: "pyenv \<Rightarrow> xml \<Rightarrow> string" where
  "fingerprint_for_node env node =
     (let tag = strip_ns (node_tag node);
          attrs = map (\<lambda>(k, v). (k, py_strip v))
                    (filter (\<lambda>(k, v). k \<noteq> ''id'') (sort_key fst (node_attrib node)));
          txt = py_strip (case node_text node of None \<Rightarrow> [] | Some t \<Rightarrow> t) in
      take 12 (sha1_json env (tag, attrs, txt)))"

definition id_char_ok :: "char \<Rightarrow> bool" where
  "id_char_ok c =
     ((CHR ''a'' \<le> c \<and> c \<le> CHR ''z'') \<or> (CHR ''A'' \<le> c \<and> c \<le> CHR ''Z'')
      \<or> (CHR ''0'' \<le> c \<and> c \<le> CHR ''9'') \<or> c = CHR ''_'' \<or> c = CHR ''-'')"

definition stable_layer_id :: "xml \<Rightarrow> string \<Rightarrow> string" where
  "stable_layer_id node fingerprint =
     (let source_id = py_strip (case map_of (node_attrib node) ''id'' of
                                  None \<Rightarrow> [] | Some i \<Rightarrow> i) in
      if source_id \<noteq> [] then map (\<lambda>c. if id_char_ok c then c else CHR ''_'') source_id
      else ''layer_'' @ strip_ns (node_tag node) @ ''_'' @ fingerprint)"

section \<open>The compiler: traversal\<close>

text \<open>
  A layer row as \<open>_collect_layers\<close> builds it. The minimal projection is the row without
  \<open>children\<close>, \<open>constraints\<close> and \<open>metadata\<close>; the full row extends it. The derived text
  fields \<open>label\<close>, \<open>tags\<close> and \<open>aliases\<close> are left out: no property below reads them.
\<close>

record layer_min =
  layer_id :: string
  layer_kind :: layer_type
  layer_bbox :: bbox
  defaultOrigin :: "real \<times> real"
  zIndex :: nat
  layer_caps :: capabilities
  fingerprint :: string

record layer_full = layer_min +
  children :: "string list"
  constraints :: "(string \<times> real) list"
  meta_tag :: string
  meta_parent :: "string option"
  meta_attributeCount :: nat

definition STRUCTURAL_TAGS :: "string list" where
  "STRUCTURAL_TAGS = [''defs'', ''clipPath'', ''mask'', ''style'', ''metadata'', ''title'', ''desc'']"

definition structural :: "xml \<Rightarrow> bool" where
  "structural node = (strip_ns (node_tag node) \<in> set STRUCTURAL_TAGS)"

text \<open>\<open>v or d\<close> on an optional float: \<open>None\<close> and \<open>0.0\<close> are falsy.\<close>

definition or_default :: "real option \<Rightarrow> real \<Rightarrow> real" where
  "or_default v d = (case v of None \<Rightarrow> d | Some r \<Rightarrow> if r = 0 then d else r)"

definition make_row ::
  "pyenv \<Rightarrow> xml \<Rightarrow> string option \<Rightarrow> bbox \<Rightarrow> string list \<Rightarrow> nat \<Rightarrow> layer_full" where
  "make_row env node parent_id box child_ids z_index =
     (let tag = strip_ns (node_tag node);
          fp = fingerprint_for_node env node;
          caps = infer_capabilities (infer_type tag) in
      \<lparr> layer_id = stable_layer_id node fp,
        layer_kind = infer_type tag,
        layer_bbox = box,
        defaultOrigin = (box_cx box, box_cy box),
        zIndex = z_index,
        layer_caps = caps,
        fingerprint = fp,
        children = child_ids,
        constraints = [(''maxRotation'', or_default (maxRotation caps) 45),
                       (''minDepth'', or_default (minDepth caps) (- 200)),
                       (''maxDepth'', or_default (maxDepth caps) 200)],
        meta_tag = tag,
        meta_parent = parent_id,
        meta_attributeCount = length (node_attrib node) \<rparr>)"

text \<open>
  The nested function \<open>visit\<close> of \<open>_collect_layers\<close>. It appends to the shared list
  \<open>collected\<close> and increments the shared counter \<open>z_counter[0]\<close>; here it returns the rows
  it appended, in order, and the counter after the call. \<open>visit_children\<close> is its loop
  over \<open>list(node)\<close>, returning \<open>child_boxes\<close> and \<open>child_ids\<close> as well.
\<close>

fun visit :: "pyenv \<Rightarrow> xml \<Rightarrow> string option \<Rightarrow> nat \<Rightarrow> bbox option \<times> layer_full list \<times> nat"
  and visit_children ::
    "pyenv \<Rightarrow> xml list \<Rightarrow> string \<Rightarrow> nat \<Rightarrow> bbox list \<times> string list \<times> layer_full list \<times> nat"
where
  "visit env (Elem tg attrs txt cs) parent_id z =
     (if strip_ns tg \<in> set STRUCTURAL_TAGS then (None, [], z)
      else
        (let node = Elem tg attrs txt cs;
             lid = stable_layer_id node (fingerprint_for_node env node) in
         case visit_children env cs lid z of
           (child_boxes, child_ids, rows, z1) \<Rightarrow>
             (let box = (if infer_type (strip_ns tg) = LGroup then bbox_union child_boxes
                         else if child_boxes \<noteq> []
                              then bbox_union (bbox_for_element env node # child_boxes)
                              else bbox_for_element env node) in
              (Some box, rows @ [make_row env node parent_id box child_ids z1], z1 + 1))))"
| "visit_children env [] lid z = ([], [], [], z)"
| "visit_children env (child # rest) lid z =
     (let child_layer_id = stable_layer_id child (fingerprint_for_node env child) in
      case visit env child (Some lid) z of
        (child_bbox, rows1, z1) \<Rightarrow>
          (case visit_children env rest lid z1 of
             (boxes, ids, rows2, z2) \<Rightarrow>
               (case child_bbox of
                  None \<Rightarrow> (boxes, ids, rows1 @ rows2, z2)
                | Some b \<Rightarrow> (b # boxes, child_layer_id # ids, rows1 @ rows2, z2))))"

definition collect_layers :: "pyenv \<Rightarrow> xml \<Rightarrow> layer_full list" where
  "collect_layers env root_node = (case visit env root_node None 0 of (b, rows, z) \<Rightarrow> rows)"

text \<open>The two documents, the manifest and \<open>LayerCompiler.compile\<close>.\<close>

record 'l layer_map_doc =
  schemaVersion :: string
  compilerVersion :: string
  sourceChecksum :: string
  generatedAt :: string
  layerCount :: nat
  layers :: "'l list"

text \<open>\<open>json.dumps\<close> of the two documents, for \<open>_payload_checksum\<close>.\<close>

record json_env =
  dumps_min :: "layer_min layer_map_doc \<Rightarrow> string"
  dumps_full :: "layer_full layer_map_doc \<Rightarrow> string"

record compile_result =
  layer_map_min :: "layer_min layer_map_doc"
  layer_map_full :: "layer_full layer_map_doc"
  compile_manifest :: manifest
  recompile_required :: bool
  recompile_reason :: "string option"

text \<open>
  \<open>tick\<close> is the reading of the clock that \<open>_iso_now()\<close> takes during this call. The
  validation round trips through the schema classes leave a well-typed payload as it is.
\<close>

definition compile ::
  "pyenv \<Rightarrow> json_env \<Rightarrow> string \<Rightarrow> nat \<Rightarrow> string \<Rightarrow> error + compile_result" where
  "compile env js compiler_version tick svg_text =
     (case parse_xml env svg_text of
        None \<Rightarrow> Inl ParseError
      | Some root_node \<Rightarrow>
          (let source_cs = source_checksum env svg_text;
               generated_at = iso_at env tick;
               layer_rows_sorted = sort_key zIndex (collect_layers env root_node);
               full_layers = layer_rows_sorted;
               min_layers = map layer_min.truncate layer_rows_sorted;
               doc_min = \<lparr> schemaVersion = ''1.0'', compilerVersion = compiler_version,
                           sourceChecksum = source_cs, generatedAt = generated_at,
                           layerCount = length min_layers, layers = min_layers \<rparr>;
               doc_full = \<lparr> schemaVersion = ''1.0'', compilerVersion = compiler_version,
                            sourceChecksum = source_cs, generatedAt = generated_at,
                            layerCount = length full_layers, layers = full_layers \<rparr> in
           Inr \<lparr> layer_map_min = doc_min,
                 layer_map_full = doc_full,
                 compile_manifest =
                   [(''schemaVersion'', ''1.0''),
                    (''compilerVersion'', compiler_version),
                    (''sourceChecksum'', source_cs),
                    (''layerMapMinChecksum'', sha256_text env (dumps_min js doc_min)),
                    (''layerMapFullChecksum'', sha256_text env (dumps_full js doc_full)),
                    (''generatedAt'', generated_at)],
                 recompile_required = True,
                 recompile_reason = Some ''compiled'' \<rparr>))"

text \<open>The identifier \<open>visit\<close> gives to a node.\<close>

definition node_layer_id :: "pyenv \<Rightarrow> xml \<Rightarrow> string" where
  "node_layer_id env node = stable_layer_id node (fingerprint_for_node env node)"

text \<open>The ordered layer ids and fingerprints of the two documents of a compile result.\<close>

definition ids_and_fingerprints ::
  "error + compile_result \<Rightarrow> error + (string \<times> string) list \<times> (string \<times> string) list" where
  "ids_and_fingerprints res =
     (case res of
        Inl e \<Rightarrow> Inl e
      | Inr r \<Rightarrow> Inr (map (\<lambda>l. (layer_id l, fingerprint l)) (layers (layer_map_min r)),
                      map (\<lambda>l. (layer_id l, fingerprint l)) (layers (layer_map_full r))))"

section \<open>The state store\<close>

text \<open>
  The runtime state of a layer. The store only ever holds states that
  \<open>_default_layer_state\<close> built and \<open>_normalize_props\<close> updated, so the ten tracked fields
  are always present with the types the normalisation gives them
  (\<open>schemas.LayerRuntimeState\<close>): the dictionary is modelled as a record.
\<close>

record layer_state =
  l_x :: real
  l_y :: real
  l_scale :: real
  l_rotation :: real
  l_opacity :: real
  l_visible :: bool
  l_origin :: pyval
  l_status :: string
  l_lastUpdate :: string
  l_z :: real

text \<open>
  \<open>StateStore\<close>. \<open>clock\<close> counts the calls of \<open>_iso_now()\<close> made so far: the next call
  returns \<open>iso_at env (clock s)\<close>. \<open>deepcopy\<close> is the identity on values.
\<close>

record store =
  layer_tree :: "string \<rightharpoonup> string list"
  current :: "string \<rightharpoonup> layer_state"
  history :: "(string \<rightharpoonup> layer_state) list"
  future :: "(string \<rightharpoonup> layer_state) list"
  clock :: nat

definition iso_now :: "pyenv \<Rightarrow> store \<Rightarrow> string \<times> store" where
  "iso_now env s = (iso_at env (clock s), s\<lparr>clock := Suc (clock s)\<rparr>)"

definition clamp_opacity :: "real \<Rightarrow> real" where
  "clamp_opacity v = max 0 (min 1 v)"

definition default_layer_state :: "pyval \<Rightarrow> string \<Rightarrow> layer_state" where
  "default_layer_state default_origin now =
     \<lparr> l_x = 0, l_y = 0, l_scale = 1, l_rotation = 0, l_opacity = 1, l_visible = True,
       l_origin = (if py_bool default_origin then default_origin else PNone),
       l_status = ''idle'', l_lastUpdate = now, l_z = 0 \<rparr>"

text \<open>\<open>StateStore.from_layer_map_full\<close>: a later layer with the same id overwrites.\<close>

fun from_layers :: "pyenv \<Rightarrow> layer_full list \<Rightarrow> store \<Rightarrow> store" where
  "from_layers env [] s = s"
| "from_layers env (layer # rest) s =
     (case iso_now env s of
        (now, s1) \<Rightarrow>
          from_layers env rest
            (s1\<lparr> layer_tree := (layer_tree s1)(layer_id layer \<mapsto> children layer),
                 current := (current s1)(layer_id layer \<mapsto>
                    default_layer_state (POrigin (fst (defaultOrigin layer))
                                                 (snd (defaultOrigin layer))) now) \<rparr>))"

definition from_layer_map_full :: "pyenv \<Rightarrow> nat \<Rightarrow> layer_full layer_map_doc \<Rightarrow> store" where
  "from_layer_map_full env tick doc =
     from_layers env (layers doc)
       \<lparr> layer_tree = Map.empty, current = Map.empty, history = [], future = [], clock = tick \<rparr>"

definition ensure_layer :: "pyenv \<Rightarrow> string \<Rightarrow> store \<Rightarrow> store" where
  "ensure_layer env lid s =
     (let s1 = (if current s lid = None
                then (case iso_now env s of
                        (now, s') \<Rightarrow> s'\<lparr>current := (current s')(lid \<mapsto> default_layer_state PNone now)\<rparr>)
                else s) in
      if layer_tree s1 lid = None then s1\<lparr>layer_tree := (layer_tree s1)(lid \<mapsto> [])\<rparr> else s1)"

definition get_layer_state :: "pyenv \<Rightarrow> string \<Rightarrow> store \<Rightarrow> store \<times> (error + layer_state)" where
  "get_layer_state env lid s =
     (let s1 = ensure_layer env lid s in
      case current s1 lid of None \<Rightarrow> (s1, Inl KeyError) | Some st \<Rightarrow> (s1, Inr st))"

definition get_state :: "store \<Rightarrow> (string \<rightharpoonup> layer_state)" where
  "get_state s = current s"

definition commit_history :: "store \<Rightarrow> store" where
  "commit_history s = s\<lparr>history := history s @ [current s], future := []\<rparr>"

text \<open>
  The dictionary \<open>normalized\<close> of \<open>_normalize_props\<close>, one typed entry per tracked key.
  Incoming properties are an association list in the dictionary's order, each key once.
\<close>

datatype field_upd =
    UX real | UY real | UScale real | URotation real | UOpacity real
  | UVisible bool | UOrigin pyval | UStatus string | ULastUpdate string | UZ real

type_synonym props = "(string \<times> pyval) list"

definition TRACKED_FIELDS :: "string list" where
  "TRACKED_FIELDS = [''x'', ''y'', ''scale'', ''rotation'', ''opacity'', ''visible'', ''origin'',
                     ''status'', ''lastUpdate'', ''z'']"

definition normalize_item :: "pyenv \<Rightarrow> string \<Rightarrow> pyval \<Rightarrow> error + field_upd option" where
  "normalize_item env key v =
     (if key \<notin> set TRACKED_FIELDS then Inr None
      else if key = ''opacity'' then map_sum id (\<lambda>r. Some (UOpacity (clamp_opacity r))) (py_float env v)
      else if key = ''scale'' then map_sum id (\<lambda>r. Some (UScale r)) (py_float env v)
      else if key = ''x'' then map_sum id (\<lambda>r. Some (UX r)) (py_float env v)
      else if key = ''y'' then map_sum id (\<lambda>r. Some (UY r)) (py_float env v)
      else if key = ''rotation'' then map_sum id (\<lambda>r. Some (URotation r)) (py_float env v)
      else if key = ''z'' then map_sum id (\<lambda>r. Some (UZ r)) (py_float env v)
      else if key = ''visible'' then Inr (Some (UVisible (py_bool v)))
      else if key = ''origin'' then Inr (Some (UOrigin v))
      else if key = ''status'' then Inr (Some (UStatus (py_str env v)))
      else Inr (Some (ULastUpdate (py_str env v))))"

fun normalize_items :: "pyenv \<Rightarrow> props \<Rightarrow> error + field_upd list" where
  "normalize_items env [] = Inr []"
| "normalize_items env ((key, v) # rest) =
     (case normalize_item env key v of
        Inl e \<Rightarrow> Inl e
      | Inr u \<Rightarrow>
          (case normalize_items env rest of
             Inl e \<Rightarrow> Inl e
           | Inr us \<Rightarrow> Inr (case u of None \<Rightarrow> us | Some w \<Rightarrow> w # us)))"

definition is_lastUpdate :: "field_upd \<Rightarrow> bool" where
  "is_lastUpdate u = (case u of ULastUpdate t \<Rightarrow> True | _ \<Rightarrow> False)"

definition normalize_props :: "pyenv \<Rightarrow> props \<Rightarrow> store \<Rightarrow> store \<times> (error + field_upd list)" where
  "normalize_props env ps s =
     (case normalize_items env ps of
        Inl e \<Rightarrow> (s, Inl e)
      | Inr normalized \<Rightarrow>
          if list_ex is_lastUpdate normalized then (s, Inr normalized)
          else (case iso_now env s of (now, s') \<Rightarrow> (s', Inr (normalized @ [ULastUpdate now]))))"

fun apply_upd :: "field_upd \<Rightarrow> layer_state \<Rightarrow> layer_state" where
  "apply_upd (UX r) st = st\<lparr>l_x := r\<rparr>"
| "apply_upd (UY r) st = st\<lparr>l_y := r\<rparr>"
| "apply_upd (UScale r) st = st\<lparr>l_scale := r\<rparr>"
| "apply_upd (URotation r) st = st\<lparr>l_rotation := r\<rparr>"
| "apply_upd (UOpacity r) st = st\<lparr>l_opacity := r\<rparr>"
| "apply_upd (UVisible b) st = st\<lparr>l_visible := b\<rparr>"
| "apply_upd (UOrigin v) st = st\<lparr>l_origin := v\<rparr>"
| "apply_upd (UStatus t) st = st\<lparr>l_status := t\<rparr>"
| "apply_upd (ULastUpdate t) st = st\<lparr>l_lastUpdate := t\<rparr>"
| "apply_upd (UZ r) st = st\<lparr>l_z := r\<rparr>"

text \<open>The applied dictionary as the caller sees it.\<close>

fun upd_item :: "field_upd \<Rightarrow> string \<times> pyval" where
  "upd_item (UX r) = (''x'', PNum r)"
| "upd_item (UY r) = (''y'', PNum r)"
| "upd_item (UScale r) = (''scale'', PNum r)"
| "upd_item (URotation r) = (''rotation'', PNum r)"
| "upd_item (UOpacity r) = (''opacity'', PNum r)"
| "upd_item (UVisible b) = (''visible'', PBool b)"
| "upd_item (UOrigin v) = (''origin'', v)"
| "upd_item (UStatus t) = (''status'', PStr t)"
| "upd_item (ULastUpdate t) = (''lastUpdate'', PStr t)"
| "upd_item (UZ r) = (''z'', PNum r)"

definition apply_direct :: "pyenv \<Rightarrow> string \<Rightarrow> props \<Rightarrow> store \<Rightarrow> store \<times> (error + field_upd list)" where
  "apply_direct env lid ps s =
     (case normalize_props env ps (ensure_layer env lid s) of
        (s2, Inl e) \<Rightarrow> (s2, Inl e)
      | (s2, Inr normalized) \<Rightarrow>
          (case current s2 lid of
             None \<Rightarrow> (s2, Inl KeyError)
           | Some st \<Rightarrow>
               (s2\<lparr>current := (current s2)(lid \<mapsto> fold apply_upd normalized st)\<rparr>,
                Inr normalized)))"

text \<open>The deltas and ratios \<open>_propagate_group_delta\<close> computes from the parent.\<close>

record delta =
  d_x :: real
  d_y :: real
  d_rotation :: real
  d_z :: real
  scale_ratio :: real
  opacity_ratio :: real

definition parent_delta :: "layer_state \<Rightarrow> layer_state \<Rightarrow> delta" where
  "parent_delta old_parent new_parent =
     \<lparr> d_x = l_x new_parent - l_x old_parent,
       d_y = l_y new_parent - l_y old_parent,
       d_rotation = l_rotation new_parent - l_rotation old_parent,
       d_z = l_z new_parent - l_z old_parent,
       scale_ratio = (if l_scale old_parent = 0 then 1
                      else l_scale new_parent / l_scale old_parent),
       opacity_ratio = (if l_opacity old_parent = 0 then 1
                        else l_opacity new_parent / l_opacity old_parent) \<rparr>"

definition shift_child :: "delta \<Rightarrow> string \<Rightarrow> layer_state \<Rightarrow> layer_state" where
  "shift_child d now st =
     st\<lparr> l_x := l_x st + d_x d,
         l_y := l_y st + d_y d,
         l_rotation := l_rotation st + d_rotation d,
         l_z := l_z st + d_z d,
         l_scale := l_scale st * scale_ratio d,
         l_opacity := clamp_opacity (l_opacity st * opacity_ratio d),
         l_lastUpdate := now \<rparr>"

text \<open>
  \<open>_propagate_group_delta\<close> and its loop over the children. The first argument is the
  number of nested calls the interpreter still allows: at zero the call raises
  \<open>RecursionError\<close>, and what was written before stays written.
\<close>

fun propagate_group_delta ::
    "nat \<Rightarrow> pyenv \<Rightarrow> string \<Rightarrow> layer_state \<Rightarrow> layer_state \<Rightarrow> store \<Rightarrow> store \<times> error option"
  and propagate_children ::
    "nat \<Rightarrow> pyenv \<Rightarrow> delta \<Rightarrow> string list \<Rightarrow> store \<Rightarrow> store \<times> error option"
where
  "propagate_group_delta 0 env lid old_parent new_parent s = (s, Some RecursionError)"
| "propagate_group_delta (Suc depth) env lid old_parent new_parent s =
     (case layer_tree s lid of
        None \<Rightarrow> (s, None)
      | Some kids \<Rightarrow>
          if kids = [] then (s, None)
          else propagate_children depth env (parent_delta old_parent new_parent) kids s)"
| "propagate_children depth env d [] s = (s, None)"
| "propagate_children depth env d (child_id # rest) s =
     (let s1 = ensure_layer env child_id s in
      case current s1 child_id of
        None \<Rightarrow> (s1, Some KeyError)
      | Some child_before \<Rightarrow>
          (case iso_now env s1 of
             (now, s2) \<Rightarrow>
               (let child_after = shift_child d now child_before;
                    s3 = s2\<lparr>current := (current s2)(child_id \<mapsto> child_after)\<rparr> in
                case propagate_group_delta depth env child_id child_before child_after s3 of
                  (s4, Some e) \<Rightarrow> (s4, Some e)
                | (s4, None) \<Rightarrow> propagate_children depth env d rest s4)))"

text \<open>\<open>StateStore.set\<close>.\<close>

definition store_set ::
  "pyenv \<Rightarrow> string \<Rightarrow> props \<Rightarrow> bool \<Rightarrow> store \<Rightarrow> store \<times> (error + field_upd list)" where
  "store_set env lid ps propagate s =
     (let s1 = commit_history (ensure_layer env lid s) in
      case current s1 lid of
        None \<Rightarrow> (s1, Inl KeyError)
      | Some old_parent \<Rightarrow>
          (case apply_direct env lid ps s1 of
             (s2, Inl e) \<Rightarrow> (s2, Inl e)
           | (s2, Inr applied) \<Rightarrow>
               if propagate \<and> layer_tree s2 lid \<noteq> None \<and> layer_tree s2 lid \<noteq> Some []
               then (case current s2 lid of
                       None \<Rightarrow> (s2, Inl KeyError)
                     | Some new_parent \<Rightarrow>
                         (case propagate_group_delta (rec_limit env) env lid old_parent new_parent s2 of
                            (s3, Some e) \<Rightarrow> (s3, Inl e)
                          | (s3, None) \<Rightarrow> (s3, Inr applied)))
               else (s2, Inr applied)))"

text \<open>
  \<open>StateStore.batch_set\<close>. A change is a dictionary: \<open>layerId\<close> may be missing or empty,
  and \<open>props\<close> may be missing (then \<open>{}\<close> is taken), a dictionary, or something else.
\<close>

datatype change_props = NoProps | PropsDict props | NotADict pyval

record change =
  ch_layerId :: "string option"
  ch_props :: change_props

record applied_change =
  ac_layerId :: string
  ac_applied :: "field_upd list"

text \<open>
  The test at the head of the loop body: \<open>None\<close> when the change is skipped
  (\<open>not layer_id or not isinstance(props, dict)\<close>), else the layer id and the properties.
\<close>

definition change_target :: "change \<Rightarrow> (string \<times> props) option" where
  "change_target c =
     (case ch_layerId c of
        None \<Rightarrow> None
      | Some lid \<Rightarrow>
          if lid = [] then None
          else (case ch_props c of
                  NoProps \<Rightarrow> Some (lid, [])
                | PropsDict p \<Rightarrow> Some (lid, p)
                | NotADict v \<Rightarrow> None))"

text \<open>The rest of the loop body, for a change that is not skipped.\<close>

definition batch_step ::
  "pyenv \<Rightarrow> bool \<Rightarrow> string \<Rightarrow> props \<Rightarrow> store \<Rightarrow> store \<times> (error + field_upd list)" where
  "batch_step env propagate lid ps s =
     (let s1 = ensure_layer env lid s in
      case current s1 lid of
        None \<Rightarrow> (s1, Inl KeyError)
      | Some old_parent \<Rightarrow>
          (case apply_direct env lid ps s1 of
             (s2, Inl e) \<Rightarrow> (s2, Inl e)
           | (s2, Inr applied) \<Rightarrow>
               if propagate \<and> layer_tree s2 lid \<noteq> None \<and> layer_tree s2 lid \<noteq> Some []
               then (case current s2 lid of
                       None \<Rightarrow> (s2, Inl KeyError)
                     | Some new_parent \<Rightarrow>
                         (case propagate_group_delta (rec_limit env) env lid old_parent new_parent s2 of
                            (s3, Some e) \<Rightarrow> (s3, Inl e)
                          | (s3, None) \<Rightarrow> (s3, Inr applied)))
               else (s2, Inr applied)))"

fun batch_loop ::
  "pyenv \<Rightarrow> bool \<Rightarrow> change list \<Rightarrow> store \<Rightarrow> store \<times> (error + applied_change list)" where
  "batch_loop env propagate [] s = (s, Inr [])"
| "batch_loop env propagate (c # rest) s =
     (case change_target c of
        None \<Rightarrow> batch_loop env propagate rest s
      | Some (lid, ps) \<Rightarrow>
          (case batch_step env propagate lid ps s of
             (s3, Inl e) \<Rightarrow> (s3, Inl e)
           | (s3, Inr applied) \<Rightarrow>
               (case batch_loop env propagate rest s3 of
                  (s4, Inl e) \<Rightarrow> (s4, Inl e)
                | (s4, Inr done) \<Rightarrow>
                    (s4, Inr (\<lparr>ac_layerId = lid, ac_applied = applied\<rparr> # done)))))"

definition batch_set ::
  "pyenv \<Rightarrow> change list \<Rightarrow> bool \<Rightarrow> store \<Rightarrow> store \<times> (error + applied_change list)" where
  "batch_set env changes propagate s = batch_loop env propagate changes (commit_history s)"

text \<open>\<open>StateStore.undo\<close> and \<open>StateStore.redo\<close>.\<close>

definition undo :: "store \<Rightarrow> store \<times> bool" where
  "undo s =
     (if history s = [] then (s, False)
      else (s\<lparr> future := future s @ [current s],
               current := last (history s),
               history := butlast (history s) \<rparr>, True))"

definition redo :: "store \<Rightarrow> store \<times> bool" where
  "redo s =
     (if future s = [] then (s, False)
      else (s\<lparr> history := history s @ [current s],
               current := last (future s),
               future := butlast (future s) \<rparr>, True))"

text \<open>Repeated \<open>undo()\<close> and \<open>redo()\<close>: \<open>None\<close> as soon as one call returns \<open>False\<close>.\<close>

fun undo_n :: "nat \<Rightarrow> store \<Rightarrow> store option" where
  "undo_n 0 s = Some s"
| "undo_n (Suc n) s = (case undo s of (s', ok) \<Rightarrow> if ok then undo_n n s' else None)"

fun redo_n :: "nat \<Rightarrow> store \<Rightarrow> store option" where
  "redo_n 0 s = Some s"
| "redo_n (Suc n) s = (case redo s of (s', ok) \<Rightarrow> if ok then redo_n n s' else None)"

text \<open>A sequence of \<open>set\<close> calls, each made on the store the previous one left.\<close>

record set_call =
  sc_layer_id :: string
  sc_props :: props
  sc_propagate :: bool

fun set_calls :: "pyenv \<Rightarrow> set_call list \<Rightarrow> store \<Rightarrow> store" where
  "set_calls env [] s = s"
| "set_calls env (c # cs) s =
     set_calls env cs (fst (store_set env (sc_layer_id c) (sc_props c) (sc_propagate c) s))"

section \<open>Reconciliation with an external snapshot\<close>

definition RECONCILE_FIELDS :: "string list" where
  "RECONCILE_FIELDS = [''x'', ''y'', ''scale'', ''rotation'', ''opacity'', ''visible'', ''origin'',
                       ''status'', ''z'']"

text \<open>The state record read as the dictionary it is: \<open>field in state\<close> and \<open>state.get(field)\<close>.\<close>

definition state_get :: "layer_state \<Rightarrow> string \<Rightarrow> pyval option" where
  "state_get st k =
     (if k = ''x'' then Some (PNum (l_x st))
      else if k = ''y'' then Some (PNum (l_y st))
      else if k = ''scale'' then Some (PNum (l_scale st))
      else if k = ''rotation'' then Some (PNum (l_rotation st))
      else if k = ''opacity'' then Some (PNum (l_opacity st))
      else if k = ''visible'' then Some (PBool (l_visible st))
      else if k = ''origin'' then Some (l_origin st)
      else if k = ''status'' then Some (PStr (l_status st))
      else if k = ''lastUpdate'' then Some (PStr (l_lastUpdate st))
      else if k = ''z'' then Some (PNum (l_z st))
      else None)"

text \<open>\<open>isinstance(v, (int, float))\<close>: a Python boolean is an integer.\<close>

definition is_number :: "pyval \<Rightarrow> bool" where
  "is_number v = (case v of PNum r \<Rightarrow> True | PBool b \<Rightarrow> True | _ \<Rightarrow> False)"

definition number_of :: "pyval \<Rightarrow> real" where
  "number_of v = (case v of PNum r \<Rightarrow> r | PBool b \<Rightarrow> (if b then 1 else 0) | _ \<Rightarrow> 0)"

definition values_different :: "pyval \<Rightarrow> pyval \<Rightarrow> real \<Rightarrow> bool" where
  "values_different a b tolerance =
     (if is_number a \<and> is_number b then \<bar>number_of a - number_of b\<bar> > tolerance
      else a \<noteq> b)"

definition opt_value :: "pyval option \<Rightarrow> pyval" where
  "opt_value v = (case v of None \<Rightarrow> PNone | Some w \<Rightarrow> w)"

text \<open>
  The loop over \<open>RECONCILE_FIELDS\<close> for one layer: it returns \<open>update_for_store\<close> and
  \<open>update_for_dom\<close>; \<open>needs_change\<close> is true exactly when one of them is not empty.
\<close>

fun reconcile_fields ::
  "string \<Rightarrow> layer_state \<Rightarrow> props \<Rightarrow> real \<Rightarrow> string list \<Rightarrow> props \<times> props" where
  "reconcile_fields authoritative store_state dom_state tolerance [] = ([], [])"
| "reconcile_fields authoritative store_state dom_state tolerance (field # rest) =
     (let (for_store, for_dom) = reconcile_fields authoritative store_state dom_state tolerance rest;
          in_dom = (map_of dom_state field \<noteq> None);
          in_store = (state_get store_state field \<noteq> None);
          store_value = opt_value (state_get store_state field);
          dom_value = opt_value (map_of dom_state field) in
      if \<not> in_dom \<and> \<not> in_store then (for_store, for_dom)
      else if authoritative = ''dom'' \<and> \<not> in_dom then (for_store, for_dom)
      else if authoritative = ''store'' \<and> \<not> in_store then (for_store, for_dom)
      else if \<not> values_different store_value dom_value tolerance then (for_store, for_dom)
      else if authoritative = ''dom'' then ((field, dom_value) # for_store, for_dom)
      else (for_store, (field, store_value) # for_dom))"

definition authority :: "layer_state \<Rightarrow> string \<Rightarrow> string" where
  "authority store_state prefer = (if l_status store_state = ''locked'' then ''store'' else prefer)"

record reconcile_result =
  changed_layer_ids :: "string list"
  dom_patch :: "(string \<times> props) list"

text \<open>
  The loop over \<open>dom_layers.items()\<close>, with the list \<open>changed_layer_ids\<close> and the
  dictionary \<open>dom_patch\<close> built so far.
\<close>

fun reconcile_loop ::
  "pyenv \<Rightarrow> string \<Rightarrow> bool \<Rightarrow> real \<Rightarrow> (string \<times> props) list \<Rightarrow> store \<Rightarrow> string list
     \<Rightarrow> (string \<times> props) list \<Rightarrow> store \<times> (error + string list \<times> (string \<times> props) list)" where
  "reconcile_loop env prefer dry_run tolerance [] s changed patch = (s, Inr (changed, patch))"
| "reconcile_loop env prefer dry_run tolerance ((lid, dom_state) # rest) s changed patch =
     (case current s lid of
        None \<Rightarrow> reconcile_loop env prefer dry_run tolerance rest s changed patch
      | Some store_state \<Rightarrow>
          (case reconcile_fields (authority store_state prefer) store_state dom_state tolerance
                  RECONCILE_FIELDS of
             (update_for_store, update_for_dom) \<Rightarrow>
               if update_for_store = [] \<and> update_for_dom = []
               then reconcile_loop env prefer dry_run tolerance rest s changed patch
               else if dry_run
               then reconcile_loop env prefer dry_run tolerance rest s (changed @ [lid]) patch
               else
                 (case (if update_for_store \<noteq> []
                        then store_set env lid update_for_store False s
                        else (s, Inr [])) of
                    (s', Inl e) \<Rightarrow> (s', Inl e)
                  | (s', Inr applied) \<Rightarrow>
                      reconcile_loop env prefer dry_run tolerance rest s' (changed @ [lid])
                        (if update_for_dom \<noteq> [] then AList.update lid update_for_dom patch
                         else patch))))"

definition reconcile_with_dom ::
  "pyenv \<Rightarrow> store \<Rightarrow> (string \<times> props) list \<Rightarrow> string \<Rightarrow> bool \<Rightarrow> real
     \<Rightarrow> store \<times> (error + reconcile_result)" where
  "reconcile_with_dom env s dom_layers prefer dry_run tolerance =
     (if prefer \<noteq> ''dom'' \<and> prefer \<noteq> ''store'' then (s, Inl ValueError)
      else case reconcile_loop env prefer dry_run tolerance dom_layers s [] [] of
             (s', Inl e) \<Rightarrow> (s', Inl e)
           | (s', Inr (changed, patch)) \<Rightarrow>
               (s', Inr \<lparr> changed_layer_ids = sort (remdups changed), dom_patch = patch \<rparr>))"

section \<open>The runtime service\<close>

text \<open>
  The part of \<open>RuntimeService\<close> that decides what reaches the store: the compiled full
  layer list, the store, the run counter of the engine and the state version. The caches,
  the mirror \<open>dom_layers\<close> and the contents of the run records are left out.
\<close>

record runtime_service =
  rs_layers :: "layer_full list"
  rs_store :: store
  rs_run_counter :: nat
  rs_state_version :: nat

definition layer_full_by_id :: "layer_full list \<Rightarrow> string \<Rightarrow> error + layer_full" where
  "layer_full_by_id ls lid =
     (case find (\<lambda>l. layer_id l = lid) ls of None \<Rightarrow> Inl KeyError | Some l \<Rightarrow> Inr l)"

definition get_layer_detail :: "runtime_service \<Rightarrow> string \<Rightarrow> error + layer_full" where
  "get_layer_detail svc lid = layer_full_by_id (rs_layers svc) lid"

definition cap_map :: "string \<Rightarrow> (capabilities \<Rightarrow> bool) option" where
  "cap_map prop =
     (if prop = ''x'' \<or> prop = ''y'' then Some cap_move
      else if prop = ''scale'' then Some cap_scale
      else if prop = ''rotation'' then Some cap_rotate
      else if prop = ''opacity'' then Some cap_opacity
      else if prop = ''z'' then Some cap_depth
      else None)"

definition has_capability :: "layer_full list \<Rightarrow> string \<Rightarrow> string \<Rightarrow> error + bool" where
  "has_capability ls lid prop =
     (case cap_map prop of
        None \<Rightarrow> Inr True
      | Some cap \<Rightarrow>
          (case layer_full_by_id ls lid of Inl e \<Rightarrow> Inl e | Inr l \<Rightarrow> Inr (cap (layer_caps l))))"

definition clamp_props :: "pyenv \<Rightarrow> layer_full list \<Rightarrow> string \<Rightarrow> props \<Rightarrow> error + props" where
  "clamp_props env ls lid ps =
     (case layer_full_by_id ls lid of
        Inl e \<Rightarrow> Inl e
      | Inr layer \<Rightarrow>
          (let cons = constraints layer;
               step1 = (case map_of ps ''opacity'' of
                          None \<Rightarrow> Inr ps
                        | Some v \<Rightarrow>
                            (case py_float env v of
                               Inl e \<Rightarrow> Inl e
                             | Inr r \<Rightarrow> Inr (AList.update ''opacity'' (PNum (max 0 (min 1 r))) ps))) in
           case step1 of
             Inl e \<Rightarrow> Inl e
           | Inr out1 \<Rightarrow>
               (let step2 = (case (map_of out1 ''rotation'', map_of cons ''maxRotation'') of
                               (Some v, Some m) \<Rightarrow>
                                 (case py_float env v of
                                    Inl e \<Rightarrow> Inl e
                                  | Inr r \<Rightarrow>
                                      Inr (AList.update ''rotation''
                                             (PNum (max (- \<bar>m\<bar>) (min \<bar>m\<bar> r))) out1))
                             | _ \<Rightarrow> Inr out1) in
                case step2 of
                  Inl e \<Rightarrow> Inl e
                | Inr out2 \<Rightarrow>
                    (case map_of out2 ''z'' of
                       None \<Rightarrow> Inr out2
                     | Some v \<Rightarrow>
                         (let min_depth = (case map_of cons ''minDepth'' of
                                             None \<Rightarrow> - 200 | Some d \<Rightarrow> d);
                              max_depth = (case map_of cons ''maxDepth'' of
                                             None \<Rightarrow> 200 | Some d \<Rightarrow> d) in
                          case py_float env v of
                            Inl e \<Rightarrow> Inl e
                          | Inr r \<Rightarrow>
                              Inr (AList.update ''z'' (PNum (max min_depth (min max_depth r)))
                                     out2))))))"

text \<open>The capability loop of \<open>set_layer_state\<close>: the first key that is not allowed raises.\<close>

fun check_capabilities :: "layer_full list \<Rightarrow> string \<Rightarrow> string list \<Rightarrow> error option" where
  "check_capabilities ls lid [] = None"
| "check_capabilities ls lid (key # rest) =
     (case has_capability ls lid key of
        Inl e \<Rightarrow> Some e
      | Inr ok \<Rightarrow> if ok then check_capabilities ls lid rest else Some PermissionError)"

text \<open>
  \<open>ExecutionEngine.run_set\<close> as far as the store sees it: the clock is read for
  \<open>started_at\<close>, the store is set with propagation, the clock is read for \<open>finished_at\<close>,
  and the state of the layer is read back.
\<close>

definition run_set :: "pyenv \<Rightarrow> string \<Rightarrow> props \<Rightarrow> store \<Rightarrow> store \<times> (error + layer_state)" where
  "run_set env lid ps s =
     (case store_set env lid ps True (snd (iso_now env s)) of
        (s1, Inl e) \<Rightarrow> (s1, Inl e)
      | (s1, Inr applied) \<Rightarrow> get_layer_state env lid (snd (iso_now env s1)))"

definition set_layer_state ::
  "pyenv \<Rightarrow> runtime_service \<Rightarrow> string \<Rightarrow> props \<Rightarrow> runtime_service \<times> (error + props \<times> nat)" where
  "set_layer_state env svc lid ps =
     (case layer_full_by_id (rs_layers svc) lid of
        Inl e \<Rightarrow> (svc, Inl e)
      | Inr layer \<Rightarrow>
          (case check_capabilities (rs_layers svc) lid (map fst ps) of
             Some e \<Rightarrow> (svc, Inl e)
           | None \<Rightarrow>
               (case clamp_props env (rs_layers svc) lid ps of
                  Inl e \<Rightarrow> (svc, Inl e)
                | Inr clamped \<Rightarrow>
                    (let run = Suc (rs_run_counter svc) in
                     case run_set env lid clamped (rs_store svc) of
                       (s1, Inl e) \<Rightarrow> (svc\<lparr>rs_store := s1, rs_run_counter := run\<rparr>, Inl e)
                     | (s1, Inr planned) \<Rightarrow>
                         (svc\<lparr> rs_store := s1, rs_run_counter := run,
                               rs_state_version := Suc (rs_state_version svc) \<rparr>,
                          Inr (clamped, run))))))"


text \<open>
  Whether the loop of \<open>reconcile_with_dom\<close> finds a change for an entry of the snapshot,
  judged against a given state map; and the patch the external side receives for a layer
  on which the store is authoritative.
\<close>

definition need_change :: "(string \<rightharpoonup> layer_state) \<Rightarrow> string \<Rightarrow> real \<Rightarrow> string \<times> props \<Rightarrow> bool" where
  "need_change cur pref tolerance entry =
     (case cur (fst entry) of
        None \<Rightarrow> False
      | Some st \<Rightarrow>
          reconcile_fields (authority st pref) st (snd entry) tolerance RECONCILE_FIELDS \<noteq> ([], []))"

definition store_side_patch :: "layer_state \<Rightarrow> props \<Rightarrow> real \<Rightarrow> props" where
  "store_side_patch st dom_state tol =
     snd (reconcile_fields ''store'' st dom_state tol RECONCILE_FIELDS)"

section \<open>The subtree of a group\<close>

text \<open>
  The layers below a group, as a forest: the children of the group, each with the
  subtree the store's \<open>layer_tree\<close> gives it. \<open>forest_in\<close> says that \<open>layer_tree\<close>
  describes this forest, \<open>forest_ids\<close> lists its layer ids, \<open>forest_height\<close> is the
  number of nested calls its traversal needs.
\<close>

datatype ltree = LNode (root_id: string) (subtrees: "ltree list")



fun tree_in :: "(string \<rightharpoonup> string list) \<Rightarrow> ltree \<Rightarrow> bool"
  and forest_in :: "(string \<rightharpoonup> string list) \<Rightarrow> ltree list \<Rightarrow> bool" where
  "tree_in lt (LNode c kids) = (lt c = Some (map root_id kids) \<and> forest_in lt kids)"
| "forest_in lt [] = True"
| "forest_in lt (t # ts) = (tree_in lt t \<and> forest_in lt ts)"

text \<open>
  The propagation law as the code runs it: between the state map before and the state
  map after, every layer of the forest has moved by \<open>shift_child\<close> under the delta of
  its own parent, the delta of a deeper layer being computed from its parent's state
  before and after.
\<close>

fun tree_law ::
    "(string \<rightharpoonup> layer_state) \<Rightarrow> (string \<rightharpoonup> layer_state) \<Rightarrow> delta \<Rightarrow> ltree \<Rightarrow> bool"
  and forest_law ::
    "(string \<rightharpoonup> layer_state) \<Rightarrow> (string \<rightharpoonup> layer_state) \<Rightarrow> delta \<Rightarrow> ltree list \<Rightarrow> bool"
where
  "tree_law cur cur' d (LNode c kids) =
     (case (cur c, cur' c) of
        (Some before, Some after) \<Rightarrow>
          after = shift_child d (l_lastUpdate after) before
          \<and> forest_law cur cur' (parent_delta before after) kids
      | _ \<Rightarrow> False)"
| "forest_law cur cur' d [] = True"
| "forest_law cur cur' d (t # ts) = (tree_law cur cur' d t \<and> forest_law cur cur' d ts)"



definition scale_law ::
  "(string \<rightharpoonup> layer_state) \<Rightarrow> (string \<rightharpoonup> layer_state) \<Rightarrow> delta \<Rightarrow> string list \<Rightarrow> bool" where
  "scale_law cur cur' d ids =
     list_all (\<lambda>k. case (cur k, cur' k) of
                     (Some before, Some after) \<Rightarrow> l_scale after = l_scale before * scale_ratio d
                   | _ \<Rightarrow> False) ids"




section \<open>Concrete inputs for evaluation\<close>

text \<open>A fixed environment for the concrete evaluations below.\<close>

definition env0 :: pyenv where
  "env0 = \<lparr> iso_at = (\<lambda>n. replicate n CHR ''t''),
            float_of_str = (\<lambda>s. None),
            str_of = (\<lambda>v. ''?''),
            rec_limit = 1000,
            sha256_hex = (\<lambda>s. s),
            sha1_json = (\<lambda>(tag, attrs, txt). tag @ concat (map (\<lambda>(k, v). k @ v) attrs) @ txt),
            parse_xml = (\<lambda>s. if s = [] then None
                          else Some (Elem ''svg'' [(''id'', ''root'')] None
                                 [Elem ''g'' [(''id'', ''grp'')] None
                                    [Elem ''rect'' [(''id'', ''box'')] None []]])) \<rparr>"


text \<open>A document with a root, a structural subtree and one drawable child.\<close>

definition doc1 :: xml where
  "doc1 = Elem ''svg'' [(''id'', ''root'')] None
            [Elem ''defs'' [] None [Elem ''rect'' [(''id'', ''hidden'')] None []],
             Elem ''rect'' [(''id'', ''box'')] None []]"

text \<open>An empty store, and a batch in which three of the four changes are skipped.\<close>

definition store0 :: store where
  "store0 = \<lparr> layer_tree = Map.empty, current = Map.empty, history = [], future = [], clock = 0 \<rparr>"

definition changes0 :: "change list" where
  "changes0 = [\<lparr>ch_layerId = None, ch_props = PropsDict [(''x'', PNum 5)]\<rparr>,
               \<lparr>ch_layerId = Some ''a'', ch_props = PropsDict [(''x'', PNum 1), (''junk'', PNone)]\<rparr>,
               \<lparr>ch_layerId = Some ''b'', ch_props = NotADict PNone\<rparr>,
               \<lparr>ch_layerId = Some [], ch_props = NoProps\<rparr>]"

text \<open>
  The layer map of the store tests (a group with two children), the store after
  \<open>set("child_a", {"x": 7, "status": "locked"})\<close> and \<open>set("child_b", {"x": 11})\<close>, and two
  external snapshots.
\<close>

definition box_at :: "real \<Rightarrow> real \<Rightarrow> bbox" where
  "box_at cx cy = \<lparr> box_x = 0, box_y = 0, box_width = 0, box_height = 0, box_cx = cx, box_cy = cy \<rparr>"

definition phase3_doc :: "layer_full layer_map_doc" where
  "phase3_doc =
     \<lparr> schemaVersion = ''1.0'', compilerVersion = ''0.1.0'', sourceChecksum = [],
       generatedAt = [], layerCount = 3,
       layers =
         [make_row env0 (Elem ''g'' [(''id'', ''root_group'')] None []) None (box_at 50 50)
            [''child_a'', ''child_b''] 0,
          make_row env0 (Elem ''rect'' [(''id'', ''child_a'')] None []) (Some ''root_group'')
            (box_at 10 10) [] 1,
          make_row env0 (Elem ''rect'' [(''id'', ''child_b'')] None []) (Some ''root_group'')
            (box_at 20 20) [] 2] \<rparr>"

definition locked_store :: store where
  "locked_store =
     fst (store_set env0 ''child_b'' [(''x'', PNum 11)] True
       (fst (store_set env0 ''child_a'' [(''x'', PNum 7), (''status'', PStr ''locked'')] True
          (from_layer_map_full env0 0 phase3_doc))))"


definition dom_both :: "(string \<times> props) list" where
  "dom_both = [(''child_a'', [(''x'', PNum 99), (''status'', PStr ''idle'')]),
               (''child_b'', [(''x'', PNum 88)])]"

text \<open>
  A service on the layer map of the store tests; a fresh service on a compiled source
  (a root, a group \<open>grp\<close> and a rectangle \<open>box\<close> inside it), and that service after two
  \<open>set_layer_state\<close> calls.
\<close>

definition svc_phase3 :: runtime_service where
  "svc_phase3 = \<lparr> rs_layers = layers phase3_doc,
                  rs_store = from_layer_map_full env0 0 phase3_doc,
                  rs_run_counter = 0, rs_state_version = 0 \<rparr>"










section \<open>Recompilation precedence\<close>

text \<open>
  C9 (as amended). The decision follows the precedence manual override, missing
  manifest, source-checksum mismatch, compiler-version mismatch, unchanged: the first of
  the conditions that holds fixes the outcome whatever the later ones are. The four
  outcomes that ask for a recompilation carry four pairwise distinct reason strings;
  the unchanged outcome answers \<open>False\<close> and carries no reason string (\<open>None\<close>).
\<close>

theorem needs_recompile_precedence:
  "(manual \<longrightarrow> needs_recompile env ver src pm manual = (True, Some ''manual_recompile''))
   \<and> (\<not> manual \<and> manifest_missing pm
        \<longrightarrow> needs_recompile env ver src pm manual = (True, Some ''missing_manifest''))
   \<and> (\<not> manual \<and> \<not> manifest_missing pm \<and> checksum_mismatch env src pm
        \<longrightarrow> needs_recompile env ver src pm manual = (True, Some ''source_checksum_changed''))
   \<and> (\<not> manual \<and> \<not> manifest_missing pm \<and> \<not> checksum_mismatch env src pm
        \<and> version_mismatch ver pm
        \<longrightarrow> needs_recompile env ver src pm manual = (True, Some ''compiler_version_changed''))
   \<and> (\<not> manual \<and> \<not> manifest_missing pm \<and> \<not> checksum_mismatch env src pm
        \<and> \<not> version_mismatch ver pm
        \<longrightarrow> needs_recompile env ver src pm manual = (False, None))
   \<and> distinct [''manual_recompile'', ''missing_manifest'', ''source_checksum_changed'',
                 ''compiler_version_changed'']"
  by (cases pm)
     (simp_all add: needs_recompile_def manifest_missing_def checksum_mismatch_def
        version_mismatch_def)

theorem needs_recompile_precedence_witness:
  "needs_recompile env0 ''0.1.0'' ''<svg/>''
       (Some [(''sourceChecksum'', ''sha256:<svg/>''), (''compilerVersion'', ''0.1.0'')]) True
     = (True, Some ''manual_recompile'')
   \<and> needs_recompile env0 ''0.1.0'' ''<svg/>'' None False = (True, Some ''missing_manifest'')
   \<and> needs_recompile env0 ''0.1.0'' ''<svg/>''
       (Some [(''sourceChecksum'', ''sha256:old''), (''compilerVersion'', ''0.0.9'')]) False
     = (True, Some ''source_checksum_changed'')
   \<and> needs_recompile env0 ''0.1.0'' ''<svg/>''
       (Some [(''sourceChecksum'', ''sha256:<svg/>''), (''compilerVersion'', ''0.0.9'')]) False
     = (True, Some ''compiler_version_changed'')
   \<and> needs_recompile env0 ''0.1.0'' ''<svg/>''
       (Some [(''sourceChecksum'', ''sha256:<svg/>''), (''compilerVersion'', ''0.1.0'')]) False
     = (False, None)"
proof -
  let ?same = "Some [(''sourceChecksum'', ''sha256:<svg/>''), (''compilerVersion'', ''0.1.0'')]"
  let ?old = "Some [(''sourceChecksum'', ''sha256:old''), (''compilerVersion'', ''0.0.9'')]"
  let ?ver = "Some [(''sourceChecksum'', ''sha256:<svg/>''), (''compilerVersion'', ''0.0.9'')]"
  have cs: "source_checksum env0 ''<svg/>'' = ''sha256:<svg/>''"
    by (simp add: source_checksum_def sha256_text_def env0_def)
  have a: "needs_recompile env0 ''0.1.0'' ''<svg/>'' ?same True = (True, Some ''manual_recompile'')"
    using needs_recompile_precedence
      [where manual = True and env = env0 and ver = "''0.1.0''" and src = "''<svg/>''" and pm = ?same] by simp
  have b: "needs_recompile env0 ''0.1.0'' ''<svg/>'' None False = (True, Some ''missing_manifest'')"
    using needs_recompile_precedence
      [where manual = False and env = env0 and ver = "''0.1.0''" and src = "''<svg/>''" and pm = None]
    by (simp add: manifest_missing_def)
  have c: "needs_recompile env0 ''0.1.0'' ''<svg/>'' ?old False
             = (True, Some ''source_checksum_changed'')"
    using needs_recompile_precedence
      [where manual = False and env = env0 and ver = "''0.1.0''" and src = "''<svg/>''" and pm = ?old]
    by (simp add: manifest_missing_def checksum_mismatch_def cs)
  have d: "needs_recompile env0 ''0.1.0'' ''<svg/>'' ?ver False
             = (True, Some ''compiler_version_changed'')"
    using needs_recompile_precedence
      [where manual = False and env = env0 and ver = "''0.1.0''" and src = "''<svg/>''" and pm = ?ver]
    by (simp add: manifest_missing_def checksum_mismatch_def version_mismatch_def cs)
  have e: "needs_recompile env0 ''0.1.0'' ''<svg/>'' ?same False = (False, None)"
    using needs_recompile_precedence
      [where manual = False and env = env0 and ver = "''0.1.0''" and src = "''<svg/>''" and pm = ?same]
    by (simp add: manifest_missing_def checksum_mismatch_def version_mismatch_def cs)
  from a b c d e show ?thesis by simp
qed

text \<open>
  C9 as stated fails on the fifth outcome: with an unchanged source and an unchanged
  compiler version the decision carries no reason string at all.
\<close>

theorem needs_recompile_unchanged_counterexample:
  "\<not> (\<exists>reason. snd (needs_recompile env0 ''0.1.0'' ''<svg/>''
         (Some [(''sourceChecksum'', ''sha256:<svg/>''), (''compilerVersion'', ''0.1.0'')]) False)
        = Some reason)"
  by (simp add: needs_recompile_def source_checksum_def sha256_text_def env0_def)

section \<open>Traversal order and z-index\<close>

lemma zIndex_make_row: "zIndex (make_row env node pid box ids z) = z"
  and meta_tag_make_row: "meta_tag (make_row env node pid box ids z) = strip_ns (node_tag node)"
  and layer_id_make_row:
    "layer_id (make_row env node pid box ids z) = stable_layer_id node (fingerprint_for_node env node)"
  and children_make_row: "children (make_row env node pid box ids z) = ids"
  and meta_parent_make_row: "meta_parent (make_row env node pid box ids z) = pid"
  and fingerprint_make_row: "fingerprint (make_row env node pid box ids z) = fingerprint_for_node env node"
  by (simp_all add: make_row_def Let_def)

lemma visit_structural:
  "structural node \<Longrightarrow> visit env node pid z = (None, [], z)"
  by (cases node) (simp add: structural_def)

lemma visit_emits:
  assumes "\<not> structural node"
    and "visit_children env (node_children node)
           (stable_layer_id node (fingerprint_for_node env node)) z = (boxes, ids, crows, z1)"
  shows "\<exists>box. visit env node pid z = (Some box, crows @ [make_row env node pid box ids z1], Suc z1)"
  using assms by (cases node) (simp add: structural_def Let_def)

lemma visit_rows:
  "(\<forall>b rows z'. visit env n pid z = (b, rows, z') \<longrightarrow>
      map zIndex rows = [z..<z'] \<and> z \<le> z' \<and> (\<forall>r\<in>set rows. meta_tag r \<notin> set STRUCTURAL_TAGS))"
  "(\<forall>bs ids rows z'. visit_children env cs lid z = (bs, ids, rows, z') \<longrightarrow>
      map zIndex rows = [z..<z'] \<and> z \<le> z' \<and> (\<forall>r\<in>set rows. meta_tag r \<notin> set STRUCTURAL_TAGS))"
proof (induction env n pid z and env cs lid z rule: visit_visit_children.induct)
  case (1 env tg attrs tx cs parent_id z)
  let ?node = "Elem tg attrs tx cs"
  let ?lid = "stable_layer_id ?node (fingerprint_for_node env ?node)"
  show ?case
  proof (cases "strip_ns tg \<in> set STRUCTURAL_TAGS")
    case True
    then show ?thesis by simp
  next
    case False
    obtain boxes ids crows z1 where vc: "visit_children env cs ?lid z = (boxes, ids, crows, z1)"
      by (cases "visit_children env cs ?lid z") auto
    from 1 [OF False refl refl] vc
    have ih: "map zIndex crows = [z..<z1]" "z \<le> z1"
      "\<forall>r\<in>set crows. meta_tag r \<notin> set STRUCTURAL_TAGS"
      by auto
    from False vc obtain box where
      v: "visit env ?node parent_id z = (Some box, crows @ [make_row env ?node parent_id box ids z1], Suc z1)"
      using visit_emits [of ?node env z boxes ids crows z1 parent_id]
      by (auto simp: structural_def)
    show ?thesis
      using ih False unfolding v
      by (auto simp: zIndex_make_row meta_tag_make_row upt_Suc_append simp del: upt_Suc)
  qed
next
  case (2 env lid z)
  then show ?case by simp
next
  case (3 env child rest lid z)
  obtain cb rows1 z1 where v: "visit env child (Some lid) z = (cb, rows1, z1)"
    by (cases "visit env child (Some lid) z") auto
  obtain boxes ids rows2 z2 where vc: "visit_children env rest lid z1 = (boxes, ids, rows2, z2)"
    by (cases "visit_children env rest lid z1") auto
  from 3(1) [OF refl] v have a: "map zIndex rows1 = [z..<z1]" "z \<le> z1"
      "\<forall>r\<in>set rows1. meta_tag r \<notin> set STRUCTURAL_TAGS"
    by auto
  from 3(2) [OF refl v [symmetric] refl] vc
  have b: "map zIndex rows2 = [z1..<z2]" "z1 \<le> z2"
      "\<forall>r\<in>set rows2. meta_tag r \<notin> set STRUCTURAL_TAGS"
    by auto
  have app: "[z..<z1] @ [z1..<z2] = [z..<z2]"
    using a(2) b(2) by (metis le_Suc_ex upt_add_eq_append)
  show ?case
    using a b app by (auto simp: v vc Let_def split: option.splits)
qed


lemma visit_cases:
  obtains (skipped) "structural node" "visit env node pid z = (None, [], z)"
  | (emitted) boxes ids crows z1 box where "\<not> structural node"
      "visit_children env (node_children node) (node_layer_id env node) z = (boxes, ids, crows, z1)"
      "visit env node pid z = (Some box, crows @ [make_row env node pid box ids z1], Suc z1)"
proof (cases "structural node")
  case True
  then show ?thesis using skipped visit_structural by blast
next
  case False
  obtain boxes ids crows z1 where
    vc: "visit_children env (node_children node) (node_layer_id env node) z = (boxes, ids, crows, z1)"
    by (cases "visit_children env (node_children node) (node_layer_id env node) z") auto
  with False visit_emits [of node env z boxes ids crows z1 pid] emitted show ?thesis
    unfolding node_layer_id_def by blast
qed

lemma visit_children_ids:
  "visit_children env cs lid z = (boxes, ids, rows, z') \<Longrightarrow>
     ids = map (node_layer_id env) (filter (\<lambda>c. \<not> structural c) cs)"
proof (induction cs arbitrary: z boxes ids rows z')
  case Nil
  then show ?case by simp
next
  case (Cons c cs)
  show ?case
  proof (cases rule: visit_cases [of c env "Some lid" z])
    case skipped
    obtain boxes2 ids2 rows2 z2 where vc: "visit_children env cs lid z = (boxes2, ids2, rows2, z2)"
      by (cases "visit_children env cs lid z") auto
    from Cons.IH [OF vc] Cons.prems skipped vc show ?thesis
      by (simp add: Let_def)
  next
    case (emitted bs js crows z1 box)
    obtain boxes2 ids2 rows2 z2 where vc: "visit_children env cs lid (Suc z1) = (boxes2, ids2, rows2, z2)"
      by (cases "visit_children env cs lid (Suc z1)") auto
    from Cons.IH [OF vc] Cons.prems emitted vc show ?thesis
      by (simp add: Let_def node_layer_id_def)
  qed
qed

lemma visit_children_child_row:
  "visit_children env cs lid z = (boxes, ids, rows, z') \<Longrightarrow> c \<in> set cs \<Longrightarrow> \<not> structural c \<Longrightarrow>
     \<exists>r\<in>set rows. layer_id r = node_layer_id env c \<and> meta_parent r = Some lid"
proof (induction cs arbitrary: z boxes ids rows z')
  case Nil
  then show ?case by simp
next
  case (Cons d cs)
  obtain b rows1 z1 where v: "visit env d (Some lid) z = (b, rows1, z1)"
    by (cases "visit env d (Some lid) z") auto
  obtain boxes2 ids2 rows2 z2 where vc: "visit_children env cs lid z1 = (boxes2, ids2, rows2, z2)"
    by (cases "visit_children env cs lid z1") auto
  from Cons.prems(1) v vc have rows: "rows = rows1 @ rows2"
    by (auto simp: Let_def split: option.splits)
  show ?case
  proof (cases "c = d")
    case True
    with Cons.prems(3) v have "\<exists>r\<in>set rows1. layer_id r = node_layer_id env c \<and> meta_parent r = Some lid"
      by (cases rule: visit_cases [of d env "Some lid" z])
         (auto simp: layer_id_make_row meta_parent_make_row node_layer_id_def)
    with rows show ?thesis by auto
  next
    case False
    with Cons.prems(2) have "c \<in> set cs" by simp
    from Cons.IH [OF vc this Cons.prems(3)] rows show ?thesis by auto
  qed
qed

text \<open>
  C1 (as amended). The traversal is depth-first and z-indices are handed out in post-order:
  the rows a visit emits carry the consecutive z-indices from the counter at entry to the
  counter at exit, each exactly once. A structural node (defs, clipPath, mask, style,
  metadata, title, desc) emits nothing, leaves the counter as it is and is not traversed,
  and no emitted row has a structural tag. A node that is not structural emits its own row
  last, after all rows of its subtree: its z-index is strictly greater than that of every
  row emitted below it, in particular than the z-index of each of its children, and its
  \<open>children\<close> field lists exactly the ids of its children that are not structural.
\<close>

theorem visit_post_order:
  "visit env node pid z = (b, rows, z') \<Longrightarrow>
     map zIndex rows = [z..<z']
     \<and> (\<forall>r\<in>set rows. meta_tag r \<notin> set STRUCTURAL_TAGS)
     \<and> (structural node \<longrightarrow> b = None \<and> rows = [] \<and> z' = z)
     \<and> (\<not> structural node \<longrightarrow>
          b \<noteq> None \<and> rows \<noteq> []
          \<and> layer_id (last rows) = node_layer_id env node
          \<and> Suc (zIndex (last rows)) = z'
          \<and> children (last rows)
              = map (node_layer_id env) (filter (\<lambda>c. \<not> structural c) (node_children node))
          \<and> (\<forall>r\<in>set (butlast rows). zIndex r < zIndex (last rows))
          \<and> (\<forall>c\<in>set (node_children node). \<not> structural c \<longrightarrow>
                (\<exists>r\<in>set (butlast rows). layer_id r = node_layer_id env c
                    \<and> meta_parent r = Some (node_layer_id env node)
                    \<and> zIndex r < zIndex (last rows))))"
proof -
  assume v: "visit env node pid z = (b, rows, z')"
  from visit_rows(1) [of env node pid z] v
  have r1: "map zIndex rows = [z..<z']" and r2: "\<forall>r\<in>set rows. meta_tag r \<notin> set STRUCTURAL_TAGS"
    by auto
  show ?thesis
  proof (cases rule: visit_cases [of node env pid z])
    case skipped
    with v r1 r2 show ?thesis by simp
  next
    case (emitted boxes ids crows z1 box)
    from emitted(3) v have rows: "rows = crows @ [make_row env node pid box ids z1]"
      and z': "z' = Suc z1" and b: "b = Some box" by simp_all
    from visit_rows(2) [of env "node_children node" "node_layer_id env node" z] emitted(2)
    have c1: "map zIndex crows = [z..<z1]" by auto
    have small: "\<forall>r\<in>set crows. zIndex r < z1"
    proof
      fix r assume "r \<in> set crows"
      then have "zIndex r \<in> set (map zIndex crows)" by simp
      then show "zIndex r < z1" unfolding c1 by simp
    qed
    have kids: "\<forall>c\<in>set (node_children node). \<not> structural c \<longrightarrow>
        (\<exists>r\<in>set crows. layer_id r = node_layer_id env c
            \<and> meta_parent r = Some (node_layer_id env node) \<and> zIndex r < z1)"
      using visit_children_child_row [OF emitted(2)] small by blast
    from emitted(1) r1 r2 small kids visit_children_ids [OF emitted(2)] show ?thesis
      unfolding rows z' b
      by (simp add: zIndex_make_row layer_id_make_row children_make_row node_layer_id_def)
  qed
qed

theorem visit_post_order_witness:
  "visit env0 doc1 None 0
     = (fst (visit env0 doc1 None 0), fst (snd (visit env0 doc1 None 0)),
        snd (snd (visit env0 doc1 None 0)))
   \<and> map zIndex (fst (snd (visit env0 doc1 None 0))) = [0, 1]
   \<and> \<not> structural doc1
   \<and> layer_id (last (fst (snd (visit env0 doc1 None 0)))) = ''root''
   \<and> children (last (fst (snd (visit env0 doc1 None 0)))) = [''box'']
   \<and> Suc (zIndex (last (fst (snd (visit env0 doc1 None 0))))) = 2"
proof -
  have h: "visit env0 doc1 None 0
     = (fst (visit env0 doc1 None 0), fst (snd (visit env0 doc1 None 0)),
        snd (snd (visit env0 doc1 None 0)))"
    by simp
  have z: "snd (snd (visit env0 doc1 None 0)) = 2"
    by code_simp
  have ns: "\<not> structural doc1"
    by code_simp
  have nid: "node_layer_id env0 doc1 = ''root''"
    by code_simp
  have kids: "map (node_layer_id env0) (filter (\<lambda>c. \<not> structural c) (node_children doc1)) = [''box'']"
    by code_simp
  have up: "[0..<2] = [0, Suc 0]"
    by (simp add: upt_rec)
  from visit_post_order [OF h] z ns nid kids up show ?thesis
    by (simp add: prod_eq_iff)
qed

text \<open>
  C1 as stated fails: in the document \<open>doc1\<close> the root is the parent of the rectangle
  \<open>box\<close>, and the root's z-index is 1 while its child's is 0.
\<close>

theorem collect_layers_parent_first_counterexample:
  "layer_id (collect_layers env0 doc1 ! 0) = ''box''
   \<and> meta_parent (collect_layers env0 doc1 ! 0) = Some ''root''
   \<and> layer_id (collect_layers env0 doc1 ! 1) = ''root''
   \<and> children (collect_layers env0 doc1 ! 1) = [''box'']
   \<and> \<not> zIndex (collect_layers env0 doc1 ! 1) < zIndex (collect_layers env0 doc1 ! 0)"
  by code_simp

section \<open>Determinism of compilation\<close>

text \<open>
  C8. Two compilations of the same source text by the same compiler version, whatever the
  clock reads at each of them, both fail or both succeed, and when they succeed they give
  the same ordered sequence of layer ids and fingerprints, in the minimal and in the full
  document.
\<close>

theorem compile_deterministic:
  "ids_and_fingerprints (compile env js compiler_version tick1 svg_text)
     = ids_and_fingerprints (compile env js compiler_version tick2 svg_text)"
  by (simp add: ids_and_fingerprints_def compile_def Let_def split: option.splits)

section \<open>History bookkeeping of the store\<close>

lemma iso_now_fields:
  "history (snd (iso_now env s)) = history s"
  "future (snd (iso_now env s)) = future s"
  "current (snd (iso_now env s)) = current s"
  "layer_tree (snd (iso_now env s)) = layer_tree s"
  by (simp_all add: iso_now_def)

lemma ensure_layer_hist:
  "history (ensure_layer env lid s) = history s"
  "future (ensure_layer env lid s) = future s"
  by (simp_all add: ensure_layer_def iso_now_def Let_def)

lemma ensure_layer_current:
  "current (ensure_layer env lid s) lid \<noteq> None"
  "k \<noteq> lid \<Longrightarrow> current (ensure_layer env lid s) k = current s k"
  "current s k = Some st \<Longrightarrow> current (ensure_layer env lid s) k = Some st"
  by (auto simp: ensure_layer_def iso_now_def Let_def)

lemma ensure_layer_known:
  "current s lid \<noteq> None \<Longrightarrow> current (ensure_layer env lid s) = current s"
  by (auto simp: ensure_layer_def Let_def)

lemma normalize_props_fields:
  "history (fst (normalize_props env ps s)) = history s"
  "future (fst (normalize_props env ps s)) = future s"
  "current (fst (normalize_props env ps s)) = current s"
  "layer_tree (fst (normalize_props env ps s)) = layer_tree s"
  by (simp_all add: normalize_props_def iso_now_def split: sum.splits)

lemma apply_direct_hist:
  "history (fst (apply_direct env lid ps s)) = history s"
  "future (fst (apply_direct env lid ps s)) = future s"
proof -
  obtain s2 r where n: "normalize_props env ps (ensure_layer env lid s) = (s2, r)"
    by (cases "normalize_props env ps (ensure_layer env lid s)") auto
  from normalize_props_fields(1,2) [of env ps "ensure_layer env lid s"] n
  have "history s2 = history s" "future s2 = future s"
    by (simp_all add: ensure_layer_hist)
  then show "history (fst (apply_direct env lid ps s)) = history s"
    "future (fst (apply_direct env lid ps s)) = future s"
    by (simp_all add: apply_direct_def n split: sum.splits option.splits)
qed

lemma propagate_hist:
  "history (fst (propagate_group_delta depth env lid old new s)) = history s
   \<and> future (fst (propagate_group_delta depth env lid old new s)) = future s"
  "history (fst (propagate_children depth env d kids s)) = history s
   \<and> future (fst (propagate_children depth env d kids s)) = future s"
proof (induction depth env lid old new s and depth env d kids s
       rule: propagate_group_delta_propagate_children.induct)
  case (1 env lid old_parent new_parent s)
  show ?case by simp
next
  case (2 depth env lid old_parent new_parent s)
  then show ?case by (simp split: option.splits)
next
  case (3 depth env d s)
  show ?case by simp
next
  case (4 depth env d child_id rest s)
  let ?s1 = "ensure_layer env child_id s"
  show ?case
  proof (cases "current ?s1 child_id")
    case None
    then show ?thesis by (simp add: Let_def ensure_layer_hist)
  next
    case (Some child_before)
    obtain now s2 where i: "iso_now env ?s1 = (now, s2)"
      by (cases "iso_now env ?s1") auto
    let ?after = "shift_child d now child_before"
    let ?s3 = "s2\<lparr>current := (current s2)(child_id \<mapsto> ?after)\<rparr>"
    obtain s4 r where p: "propagate_group_delta depth env child_id child_before ?after ?s3 = (s4, r)"
      by (cases "propagate_group_delta depth env child_id child_before ?after ?s3") auto
    have h2: "history s2 = history s" "future s2 = future s"
      using iso_now_fields(1,2) [of env ?s1] i by (simp_all add: ensure_layer_hist)
    from 4(1) [OF refl Some i [symmetric] refl refl] p h2
    have h4: "history s4 = history s" "future s4 = future s" by simp_all
    show ?thesis
    proof (cases r)
      case None
      from 4(2) [OF refl Some i [symmetric] refl refl p [symmetric] None] h4
      show ?thesis by (simp add: Let_def Some i p None)
    next
      case (Some e)
      with h4 show ?thesis by (simp add: Let_def \<open>current ?s1 child_id = Some child_before\<close> i p)
    qed
  qed
qed

lemma store_set_hist:
  "history (fst (store_set env lid ps propagate s)) = history s @ [current (ensure_layer env lid s)]"
  "future (fst (store_set env lid ps propagate s)) = []"
proof -
  let ?s1 = "commit_history (ensure_layer env lid s)"
  have h1: "history ?s1 = history s @ [current (ensure_layer env lid s)]" "future ?s1 = []"
    by (simp_all add: commit_history_def ensure_layer_hist)
  obtain s2 r where a: "apply_direct env lid ps ?s1 = (s2, r)"
    by (cases "apply_direct env lid ps ?s1") auto
  from apply_direct_hist [of env lid ps ?s1] a h1
  have h2: "history s2 = history s @ [current (ensure_layer env lid s)]" "future s2 = []"
    by simp_all
  have h3: "history (fst (propagate_group_delta n env lid old new s2)) = history s2"
     "future (fst (propagate_group_delta n env lid old new s2)) = future s2" for n old new
    using propagate_hist(1) [of n env lid old new s2] by simp_all
  show "history (fst (store_set env lid ps propagate s)) = history s @ [current (ensure_layer env lid s)]"
    using h1 h2 h3
    by (auto simp: store_set_def Let_def a split: option.splits sum.splits prod.splits)
       (metis fst_conv)+
  show "future (fst (store_set env lid ps propagate s)) = []"
    using h1 h2 h3
    by (auto simp: store_set_def Let_def a split: option.splits sum.splits prod.splits)
       (metis fst_conv)+
qed


lemma undo_n_pops:
  "history s = h @ xs \<Longrightarrow> length xs = n \<Longrightarrow> n > 0 \<Longrightarrow>
     undo_n n s = Some (s\<lparr> future := future s @ current s # rev (tl xs),
                          current := hd xs, history := h \<rparr>)"
proof (induction n arbitrary: s xs)
  case 0
  then show ?case by simp
next
  case (Suc n)
  from Suc.prems obtain ys y where xs: "xs = ys @ [y]"
    by (metis length_0_conv nat.distinct(1) rev_exhaust)
  with Suc.prems have ne: "history s \<noteq> []" and len: "length ys = n" by auto
  let ?s' = "s\<lparr> future := future s @ [current s], current := y, history := h @ ys \<rparr>"
  have u: "undo s = (?s', True)"
    using ne Suc.prems(1) xs by (simp add: undo_def butlast_append)
  show ?case
  proof (cases "n = 0")
    case True
    with len xs u show ?thesis by simp
  next
    case False
    have "history ?s' = h @ ys" by simp
    from Suc.IH [OF this len] False
    have "undo_n n ?s' = Some (?s'\<lparr> future := future ?s' @ current ?s' # rev (tl ys),
                          current := hd ys, history := h \<rparr>)" by simp
    moreover from False len have "ys \<noteq> []" by auto
    ultimately show ?thesis using u xs by simp
  qed
qed


lemma redo_n_pops:
  "future s = f @ ys \<Longrightarrow> length ys = n \<Longrightarrow> n > 0 \<Longrightarrow>
     redo_n n s = Some (s\<lparr> history := history s @ current s # rev (tl ys),
                          current := hd ys, future := f \<rparr>)"
proof (induction n arbitrary: s ys)
  case 0
  then show ?case by simp
next
  case (Suc n)
  from Suc.prems obtain zs y where ys: "ys = zs @ [y]"
    by (metis length_0_conv nat.distinct(1) rev_exhaust)
  with Suc.prems have ne: "future s \<noteq> []" and len: "length zs = n" by auto
  let ?s' = "s\<lparr> history := history s @ [current s], current := y, future := f @ zs \<rparr>"
  have u: "redo s = (?s', True)"
    using ne Suc.prems(1) ys by (simp add: redo_def butlast_append)
  show ?case
  proof (cases "n = 0")
    case True
    with len ys u show ?thesis by simp
  next
    case False
    have "future ?s' = f @ zs" by simp
    from Suc.IH [OF this len] False
    have "redo_n n ?s' = Some (?s'\<lparr> history := history ?s' @ current ?s' # rev (tl zs),
                          current := hd zs, future := f \<rparr>)" by simp
    moreover from False len have "zs \<noteq> []" by auto
    ultimately show ?thesis using u ys by simp
  qed
qed

lemma set_calls_future:
  "cs \<noteq> [] \<Longrightarrow> future (set_calls env cs s) = []"
proof (induction cs arbitrary: s)
  case Nil
  then show ?case by simp
next
  case (Cons c cs)
  show ?case
  proof (cases "cs = []")
    case True
    then show ?thesis by (simp add: store_set_hist)
  next
    case False
    from Cons.IH [OF False] show ?thesis by simp
  qed
qed

lemma set_calls_hist:
  "\<exists>snaps. history (set_calls env cs s) = history s @ snaps \<and> length snaps = length cs
     \<and> (cs \<noteq> [] \<longrightarrow> hd snaps = current (ensure_layer env (sc_layer_id (hd cs)) s))"
proof (induction cs arbitrary: s)
  case Nil
  show ?case by simp
next
  case (Cons c cs)
  let ?s1 = "fst (store_set env (sc_layer_id c) (sc_props c) (sc_propagate c) s)"
  from Cons.IH [of ?s1] obtain snaps where
    sn: "history (set_calls env cs ?s1) = history ?s1 @ snaps" "length snaps = length cs"
    by blast
  have h1: "history ?s1 = history s @ [current (ensure_layer env (sc_layer_id c) s)]"
    by (rule store_set_hist)
  show ?case
    by (rule exI [of _ "current (ensure_layer env (sc_layer_id c) s) # snaps"])
       (simp add: sn h1)
qed

lemma undo_then_redo:
  "history s \<noteq> [] \<Longrightarrow>
     snd (undo s) \<and> snd (redo (fst (undo s)))
     \<and> current (fst (redo (fst (undo s)))) = current s
     \<and> history (fst (redo (fst (undo s)))) = history s
     \<and> future (fst (redo (fst (undo s)))) = future s"
  by (simp add: undo_def redo_def)

section \<open>Undo and redo\<close>

text \<open>
  What holds of N \<open>set\<close> calls followed by N undos and N redos: every undo and redo
  succeeds, the undos bring back the state map that the first \<open>set\<close> snapshotted, which
  is the state map before the first \<open>set\<close> once the layer of that call has been ensured,
  and the redos bring back the state map the calls had produced.
\<close>

lemma undo_redo_general:
  assumes "calls \<noteq> []"
  shows "\<exists>su sr. undo_n (length calls) (set_calls env calls s) = Some su
        \<and> current su = current (ensure_layer env (sc_layer_id (hd calls)) s)
        \<and> history su = history s
        \<and> redo_n (length calls) su = Some sr
        \<and> current sr = current (set_calls env calls s)
        \<and> history sr = history (set_calls env calls s)"
proof -
  let ?sN = "set_calls env calls s"
  let ?n = "length calls"
  from assms obtain c cs where calls: "calls = c # cs" by (cases calls) auto
  from set_calls_hist [of env calls s] calls set_calls_future [OF assms, of env s]
  obtain snaps where
    sn: "history ?sN = history s @ snaps" "length snaps = ?n"
       "hd snaps = current (ensure_layer env (sc_layer_id c) s)" "future ?sN = []"
    by auto
  from assms have pos: "?n > 0" by simp
  let ?su = "?sN\<lparr> future := future ?sN @ current ?sN # rev (tl snaps),
                          current := hd snaps, history := history s \<rparr>"
  have u: "undo_n ?n ?sN = Some ?su"
    by (rule undo_n_pops [OF sn(1) sn(2) pos])
  have fu: "future ?su = [] @ (current ?sN # rev (tl snaps))"
    by (simp add: sn(4))
  have len: "length (current ?sN # rev (tl snaps)) = ?n"
    using sn(2) pos by simp
  from redo_n_pops [OF fu len pos]
  have r: "redo_n ?n ?su = Some (?su\<lparr> history := history ?su @ current ?su # rev (tl (current ?sN # rev (tl snaps))),
                          current := hd (current ?sN # rev (tl snaps)), future := [] \<rparr>)" .
  have snaps_ne: "snaps \<noteq> []" using sn(2) pos by auto
  have hist: "history s @ hd snaps # tl snaps = history ?sN"
    using sn(1) snaps_ne by simp
  show ?thesis
    using u r sn(3) hist calls by simp
qed


lemma undo_redo_known_layer:
  assumes "calls \<noteq> []" and "current s (sc_layer_id (hd calls)) \<noteq> None"
  shows "\<exists>su. undo_n (length calls) (set_calls env calls s) = Some su
        \<and> current su = current s \<and> history su = history s"
  using undo_redo_general [OF assms(1), of env s] ensure_layer_known [OF assms(2), of env]
  by auto

text \<open>
  C3. On a store that does not know the layer, \<open>set\<close> creates the default entry before it
  takes the snapshot, so one \<open>set\<close> followed by one \<open>undo()\<close> leaves the state map with
  an entry that was not there before the \<open>set\<close>. \<open>undo()\<close> and \<open>redo()\<close> on an empty
  stack return \<open>False\<close> and change nothing.
\<close>

theorem set_unknown_layer_then_undo:
  "current store0 ''ghost'' = None
   \<and> snd (undo (fst (store_set env0 ''ghost'' [(''x'', PNum 1)] True store0)))
   \<and> current (fst (undo (fst (store_set env0 ''ghost'' [(''x'', PNum 1)] True store0)))) ''ghost''
       = Some (default_layer_state PNone (iso_at env0 0))
   \<and> undo store0 = (store0, False)
   \<and> redo store0 = (store0, False)"
proof -
  have a: "current store0 ''ghost'' = None"
    by (simp add: store0_def)
  have b: "snd (undo (fst (store_set env0 ''ghost'' [(''x'', PNum 1)] True store0)))"
    by code_simp
  have c: "current (fst (undo (fst (store_set env0 ''ghost'' [(''x'', PNum 1)] True store0)))) ''ghost''
       = Some (default_layer_state PNone (iso_at env0 0))"
    by code_simp
  have d: "undo store0 = (store0, False)" "redo store0 = (store0, False)"
    by (simp_all add: undo_def redo_def store0_def)
  from a b c d show ?thesis by simp
qed

lemma batch_step_hist:
  "history (fst (batch_step env p lid ps s)) = history s"
  "future (fst (batch_step env p lid ps s)) = future s"
proof -
  let ?s1 = "ensure_layer env lid s"
  have h1: "history ?s1 = history s" "future ?s1 = future s"
    by (simp_all add: ensure_layer_hist)
  obtain s2 r where a: "apply_direct env lid ps ?s1 = (s2, r)"
    by (cases "apply_direct env lid ps ?s1") auto
  from apply_direct_hist [of env lid ps ?s1] a h1
  have h2: "history s2 = history s" "future s2 = future s" by simp_all
  have h3: "history (fst (propagate_group_delta n env lid old new s2)) = history s"
     "future (fst (propagate_group_delta n env lid old new s2)) = future s" for n old new
    using propagate_hist(1) [of n env lid old new s2] h2 by simp_all
  show "history (fst (batch_step env p lid ps s)) = history s"
    using h1 h2 h3
    by (auto simp: batch_step_def Let_def a split: option.splits sum.splits prod.splits)
       (metis fst_conv)+
  show "future (fst (batch_step env p lid ps s)) = future s"
    using h1 h2 h3
    by (auto simp: batch_step_def Let_def a split: option.splits sum.splits prod.splits)
       (metis fst_conv)+
qed

lemma batch_loop_hist:
  "history (fst (batch_loop env p cs s)) = history s
   \<and> future (fst (batch_loop env p cs s)) = future s"
proof (induction cs arbitrary: s)
  case Nil
  show ?case by simp
next
  case (Cons c cs)
  show ?case
  proof (cases "change_target c")
    case None
    then show ?thesis using Cons.IH by simp
  next
    case (Some t)
    obtain lid ps where t: "t = (lid, ps)" by (cases t) auto
    obtain s3 r where b: "batch_step env p lid ps s = (s3, r)"
      by (cases "batch_step env p lid ps s") auto
    from batch_step_hist [of env p lid ps s] b
    have h3: "history s3 = history s" "future s3 = future s" by simp_all
    show ?thesis
    proof (cases r)
      case (Inl e)
      with h3 show ?thesis by (simp add: Some t b)
    next
      case (Inr applied)
      obtain s4 r4 where l: "batch_loop env p cs s3 = (s4, r4)"
        by (cases "batch_loop env p cs s3") auto
      from Cons.IH [of s3] l h3 have "history s4 = history s" "future s4 = future s"
        by simp_all
      then show ?thesis by (simp add: Some t b Inr l split: sum.splits)
    qed
  qed
qed

lemma batch_loop_applied:
  "batch_loop env p cs s = (s', Inr applied) \<Longrightarrow>
     map ac_layerId applied = map fst (List.map_filter change_target cs)"
proof (induction cs arbitrary: s s' applied)
  case Nil
  then show ?case by (simp add: List.map_filter_simps)
next
  case (Cons c cs)
  show ?case
  proof (cases "change_target c")
    case None
    with Cons show ?thesis by (simp add: List.map_filter_simps)
  next
    case (Some t)
    obtain lid ps where t: "t = (lid, ps)" by (cases t) auto
    obtain s3 r where b: "batch_step env p lid ps s = (s3, r)"
      by (cases "batch_step env p lid ps s") auto
    obtain s4 r4 where l: "batch_loop env p cs s3 = (s4, r4)"
      by (cases "batch_loop env p cs s3") auto
    from Cons.prems Some t b l obtain ap rest where
      r: "r = Inr ap" and r4: "r4 = Inr rest"
      and app: "applied = \<lparr>ac_layerId = lid, ac_applied = ap\<rparr> # rest"
      by (auto split: sum.splits)
    from Cons.IH [of s3 s4 rest] l r4
    have "map ac_layerId rest = map fst (List.map_filter change_target cs)" by simp
    with app Some t show ?thesis by (simp add: List.map_filter_simps)
  qed
qed

section \<open>Batched mutation\<close>

text \<open>
  C10. Every \<open>batch_set\<close> call pushes exactly one snapshot, the state map as it was before
  the call, and clears the redo stack, whatever the change list is (empty, all entries
  skipped, or a change that raises part-way); one \<open>undo()\<close> then succeeds and brings that
  state map back. When the call returns, the applied list has one entry for each change
  that is not skipped, in order: a change without a layer id, with an empty one, or whose
  \<open>props\<close> is not a dictionary leaves no entry.
\<close>

theorem batch_set_one_snapshot:
  "history (fst (batch_set env changes propagate s)) = history s @ [current s]
   \<and> future (fst (batch_set env changes propagate s)) = []
   \<and> snd (undo (fst (batch_set env changes propagate s)))
   \<and> current (fst (undo (fst (batch_set env changes propagate s)))) = current s
   \<and> history (fst (undo (fst (batch_set env changes propagate s)))) = history s
   \<and> (\<forall>applied. snd (batch_set env changes propagate s) = Inr applied \<longrightarrow>
         map ac_layerId applied = map fst (List.map_filter change_target changes))"
proof -
  let ?s1 = "commit_history s"
  have h: "history (fst (batch_set env changes propagate s)) = history s @ [current s]"
    and f: "future (fst (batch_set env changes propagate s)) = []"
    using batch_loop_hist [of env propagate changes ?s1]
    by (simp_all add: batch_set_def commit_history_def)
  have ap: "\<forall>applied. snd (batch_set env changes propagate s) = Inr applied \<longrightarrow>
         map ac_layerId applied = map fst (List.map_filter change_target changes)"
    using batch_loop_applied [of env propagate changes ?s1]
    by (metis batch_set_def prod.collapse)
  from h f ap show ?thesis by (simp add: undo_def)
qed


theorem batch_set_one_snapshot_witness:
  "snd (batch_set env0 changes0 True store0)
     = Inr [\<lparr>ac_layerId = ''a'', ac_applied = [UX 1, ULastUpdate (iso_at env0 1)]\<rparr>]
   \<and> map fst (List.map_filter change_target changes0) = [''a'']
   \<and> history (fst (batch_set env0 changes0 True store0)) = [current store0]
   \<and> history (fst (batch_set env0 [] True store0)) = [current store0]"
proof -
  have r: "snd (batch_set env0 changes0 True store0)
     = Inr [\<lparr>ac_layerId = ''a'', ac_applied = [UX 1, ULastUpdate (iso_at env0 1)]\<rparr>]"
    by code_simp
  have h: "history store0 = []"
    by (simp add: store0_def)
  from batch_set_one_snapshot [of env0 changes0 True store0]
       batch_set_one_snapshot [of env0 "[]" True store0] r h
  show ?thesis by simp
qed

section \<open>Reconciliation: the dry run\<close>

lemma apply_direct_current_other:
  "k \<noteq> lid \<Longrightarrow> current (fst (apply_direct env lid ps s)) k = current s k"
proof -
  assume k: "k \<noteq> lid"
  obtain s2 r where n: "normalize_props env ps (ensure_layer env lid s) = (s2, r)"
    by (cases "normalize_props env ps (ensure_layer env lid s)") auto
  from normalize_props_fields(3) [of env ps "ensure_layer env lid s"] n
  have "current s2 = current (ensure_layer env lid s)" by simp
  with k have "current s2 k = current s k" by (simp add: ensure_layer_current(2))
  with k show ?thesis
    by (simp add: apply_direct_def n split: sum.splits option.splits)
qed

lemma store_set_no_propagate_other:
  "k \<noteq> lid \<Longrightarrow> current (fst (store_set env lid ps False s)) k = current s k"
proof -
  assume k: "k \<noteq> lid"
  let ?s1 = "commit_history (ensure_layer env lid s)"
  have c1: "current ?s1 k = current s k"
    using k by (simp add: commit_history_def ensure_layer_current(2))
  obtain s2 r where a: "apply_direct env lid ps ?s1 = (s2, r)"
    by (cases "apply_direct env lid ps ?s1") auto
  from apply_direct_current_other [OF k, of env ps ?s1] a c1
  have "current s2 k = current s k" by simp
  then show ?thesis using c1
    by (simp add: store_set_def Let_def a split: option.splits sum.splits)
qed

lemma need_change_cong:
  "\<forall>e\<in>set dl. cur1 (fst e) = cur2 (fst e) \<Longrightarrow>
     filter (need_change cur1 pref tol) dl = filter (need_change cur2 pref tol) dl"
  by (induction dl) (auto simp: need_change_def)

lemma reconcile_loop_dry:
  "reconcile_loop env pref True tol dl s changed patch
     = (s, Inr (changed @ map fst (filter (need_change (current s) pref tol) dl), patch))"
proof (induction dl arbitrary: changed)
  case Nil
  show ?case by simp
next
  case (Cons e dl)
  obtain lid dom_state where e: "e = (lid, dom_state)" by (cases e) auto
  show ?case
    unfolding e using Cons.IH
    by (auto simp: need_change_def split: option.splits prod.splits)
qed

lemma reconcile_loop_live:
  "distinct (map fst dl) \<Longrightarrow>
   reconcile_loop env pref False tol dl s changed patch = (s', Inr (changed', patch')) \<Longrightarrow>
     changed' = changed @ map fst (filter (need_change (current s) pref tol) dl)"
proof (induction dl arbitrary: s changed patch)
  case Nil
  then show ?case by simp
next
  case (Cons e dl)
  obtain lid dom_state where e: "e = (lid, dom_state)" by (cases e) auto
  from Cons.prems(1) e have d: "distinct (map fst dl)" and nin: "lid \<notin> fst ` set dl" by auto
  show ?case
  proof (cases "need_change (current s) pref tol e")
    case False
    with Cons.prems(2) e have
      "reconcile_loop env pref False tol dl s changed patch = (s', Inr (changed', patch'))"
      by (auto simp: need_change_def split: option.splits prod.splits)
    from Cons.IH [OF d this] False show ?thesis by simp
  next
    case True
    then obtain st where st: "current s lid = Some st"
      and ne0: "reconcile_fields (authority st pref) st dom_state tol RECONCILE_FIELDS \<noteq> ([], [])"
      unfolding e by (auto simp: need_change_def split: option.splits)
    obtain ufs ufd where
      rf: "reconcile_fields (authority st pref) st dom_state tol RECONCILE_FIELDS = (ufs, ufd)"
      by (cases "reconcile_fields (authority st pref) st dom_state tol RECONCILE_FIELDS") auto
    with ne0 have ne: "\<not> (ufs = [] \<and> ufd = [])" by auto
    let ?step = "if ufs \<noteq> [] then store_set env lid ufs False s else (s, Inr [])"
    obtain s1 r1 where step: "?step = (s1, r1)" by (cases ?step) auto
    have other: "\<forall>e\<in>set dl. current s1 (fst e) = current s (fst e)"
    proof
      fix x assume "x \<in> set dl"
      with nin have "fst x \<noteq> lid" by auto
      from store_set_no_propagate_other [OF this, of env ufs s] step
      show "current s1 (fst x) = current s (fst x)" by (auto split: if_splits)
    qed
    from Cons.prems(2) e st rf ne step obtain ap where r1: "r1 = Inr ap"
      and rest: "reconcile_loop env pref False tol dl s1 (changed @ [lid])
                  (if ufd \<noteq> [] then AList.update lid ufd patch else patch)
                 = (s', Inr (changed', patch'))"
      by (cases r1) (auto split: if_splits)
    from Cons.IH [OF d rest] need_change_cong [OF other, of pref tol] True e
    show ?thesis by simp
  qed
qed

text \<open>
  C5 (as amended). For every store and every external snapshot (a dictionary: each layer
  id once), reconciling with \<open>dry_run=True\<close> returns, leaves the store exactly as it was
  and returns an empty external patch; its changed-layer-id list is the one a live run
  returns, whenever the live run returns.
\<close>

theorem reconcile_dry_run:
  assumes "distinct (map fst dom_layers)" and "pref = ''dom'' \<or> pref = ''store''"
  shows "\<exists>ids. reconcile_with_dom env s dom_layers pref True tol
                = (s, Inr \<lparr> changed_layer_ids = ids, dom_patch = [] \<rparr>)
           \<and> (\<forall>s' r. reconcile_with_dom env s dom_layers pref False tol = (s', Inr r)
                 \<longrightarrow> changed_layer_ids r = ids)"
proof -
  let ?ch = "map fst (filter (need_change (current s) pref tol) dom_layers)"
  have dry: "reconcile_with_dom env s dom_layers pref True tol
                = (s, Inr \<lparr> changed_layer_ids = sort (remdups ?ch), dom_patch = [] \<rparr>)"
    using assms(2) by (auto simp: reconcile_with_dom_def reconcile_loop_dry)
  have live: "changed_layer_ids r = sort (remdups ?ch)"
    if "reconcile_with_dom env s dom_layers pref False tol = (s', Inr r)" for s' r
  proof -
    obtain s1 r1 where l: "reconcile_loop env pref False tol dom_layers s [] [] = (s1, r1)"
      by (cases "reconcile_loop env pref False tol dom_layers s [] []") auto
    from that assms(2) l obtain ch p where r1: "r1 = Inr (ch, p)"
      and r: "r = \<lparr> changed_layer_ids = sort (remdups ch), dom_patch = p \<rparr>"
      by (auto simp: reconcile_with_dom_def split: sum.splits prod.splits)
    from reconcile_loop_live [OF assms(1), of env pref tol s "[]" "[]" s1 ch p] l r1
    have "ch = ?ch" by simp
    with r show ?thesis by simp
  qed
  from dry live show ?thesis by blast
qed


theorem reconcile_dry_run_witness:
  "distinct (map fst dom_both)
   \<and> reconcile_with_dom env0 locked_store dom_both ''dom'' True (1 / 1000000)
       = (locked_store, Inr \<lparr> changed_layer_ids = [''child_a'', ''child_b''], dom_patch = [] \<rparr>)
   \<and> changed_layer_ids (projr (snd (reconcile_with_dom env0 locked_store dom_both ''dom'' False
         (1 / 1000000)))) = [''child_a'', ''child_b'']
   \<and> map_option l_x (current (fst (reconcile_with_dom env0 locked_store dom_both ''dom'' False
         (1 / 1000000))) ''child_b'') = Some 88
   \<and> map_option l_x (current locked_store ''child_b'') = Some 11"
proof -
  let ?tol = "1 / 1000000 :: real"
  have d: "distinct (map fst dom_both)" by (simp add: dom_both_def)
  have dry: "snd (reconcile_with_dom env0 locked_store dom_both ''dom'' True ?tol)
     = Inr \<lparr> changed_layer_ids = [''child_a'', ''child_b''], dom_patch = [] \<rparr>"
    by code_simp
  have live: "changed_layer_ids (projr (snd (reconcile_with_dom env0 locked_store dom_both ''dom''
      False ?tol))) = [''child_a'', ''child_b'']"
    by code_simp
  have x88: "map_option l_x (current (fst (reconcile_with_dom env0 locked_store dom_both ''dom'' False
         ?tol)) ''child_b'') = Some 88"
    by code_simp
  have x11: "map_option l_x (current locked_store ''child_b'') = Some 11"
    by code_simp
  from reconcile_dry_run [OF d, of "''dom''" env0 locked_store ?tol] dry
  have "reconcile_with_dom env0 locked_store dom_both ''dom'' True ?tol
       = (locked_store, Inr \<lparr> changed_layer_ids = [''child_a'', ''child_b''], dom_patch = [] \<rparr>)"
    by auto
  with d live x88 x11 show ?thesis by simp
qed

text \<open>
  C5 as stated fails on the patch: the live run returns a patch for the locked layer, the
  dry run returns none.
\<close>

theorem reconcile_dry_run_patch_counterexample:
  "dom_patch (projr (snd (reconcile_with_dom env0 locked_store dom_both ''dom'' False (1 / 1000000))))
     = [(''child_a'',
          [(''x'', PNum 7), (''y'', PNum 0), (''scale'', PNum 1), (''rotation'', PNum 0),
           (''opacity'', PNum 1), (''visible'', PBool True), (''origin'', POrigin 10 10),
           (''status'', PStr ''locked''), (''z'', PNum 0)])]
   \<and> dom_patch (projr (snd (reconcile_with_dom env0 locked_store dom_both ''dom'' True (1 / 1000000))))
     = []"
  by code_simp


lemma store_side_patch_x:
  "values_different (PNum (l_x st)) (opt_value (map_of dom_state ''x'')) tol \<Longrightarrow>
     hd (store_side_patch st dom_state tol) = (''x'', PNum (l_x st))"
  by (simp add: store_side_patch_def RECONCILE_FIELDS_def Let_def state_get_def opt_value_def
        split: prod.splits)

section \<open>Reconciliation: a locked layer\<close>





lemma ensure_layer_tree:
  "layer_tree (ensure_layer env lid s) lid \<noteq> None"
  "layer_tree s lid = None \<Longrightarrow> layer_tree (ensure_layer env lid s) lid = Some []"
  "layer_tree s lid = Some kids \<Longrightarrow> layer_tree (ensure_layer env lid s) lid = Some kids"
  by (auto simp: ensure_layer_def iso_now_def Let_def split: prod.splits)

lemma ensure_layer_unknown:
  "current s lid = None \<Longrightarrow>
     current (ensure_layer env lid s) lid = Some (default_layer_state PNone (iso_at env (clock s)))"
  by (simp add: ensure_layer_def iso_now_def Let_def)

lemma apply_direct_layer_tree:
  "layer_tree (fst (apply_direct env lid ps s)) = layer_tree (ensure_layer env lid s)"
proof -
  obtain s2 r where n: "normalize_props env ps (ensure_layer env lid s) = (s2, r)"
    by (cases "normalize_props env ps (ensure_layer env lid s)") auto
  from normalize_props_fields(4) [of env ps "ensure_layer env lid s"] n
  have "layer_tree s2 = layer_tree (ensure_layer env lid s)" by simp
  then show ?thesis
    by (simp add: apply_direct_def n split: sum.splits option.splits)
qed

lemma apply_direct_keeps:
  "current s k \<noteq> None \<Longrightarrow> current (fst (apply_direct env lid ps s)) k \<noteq> None"
proof -
  assume k: "current s k \<noteq> None"
  obtain s2 r where n: "normalize_props env ps (ensure_layer env lid s) = (s2, r)"
    by (cases "normalize_props env ps (ensure_layer env lid s)") auto
  from normalize_props_fields(3) [of env ps "ensure_layer env lid s"] n
  have "current s2 = current (ensure_layer env lid s)" by simp
  with k have "current s2 k \<noteq> None" using ensure_layer_current(3) [of s k _ env lid] by auto
  then show ?thesis
    by (auto simp: apply_direct_def n split: sum.splits option.splits)
qed

lemma apply_direct_succeeds:
  assumes "normalize_items env ps = Inr n"
  shows "\<exists>applied. snd (apply_direct env lid ps s) = Inr applied"
proof -
  have "\<exists>s2 m. normalize_props env ps (ensure_layer env lid s) = (s2, Inr m)"
    using assms by (cases "list_ex is_lastUpdate n") (simp_all add: normalize_props_def iso_now_def)
  then obtain s2 m where n: "normalize_props env ps (ensure_layer env lid s) = (s2, Inr m)"
    by blast
  from normalize_props_fields(3) [of env ps "ensure_layer env lid s"] n
  have "current s2 = current (ensure_layer env lid s)" by simp
  with ensure_layer_current(1) [of env lid s] obtain st where "current s2 lid = Some st" by auto
  with n show ?thesis by (simp add: apply_direct_def)
qed

lemma propagate_keeps:
  "current s k \<noteq> None \<longrightarrow> current (fst (propagate_group_delta depth env lid old new s)) k \<noteq> None"
  "current s k \<noteq> None \<longrightarrow> current (fst (propagate_children depth env d kids s)) k \<noteq> None"
proof (induction depth env lid old new s and depth env d kids s
       rule: propagate_group_delta_propagate_children.induct)
  case (1 env lid old_parent new_parent s)
  show ?case by simp
next
  case (2 depth env lid old_parent new_parent s)
  then show ?case by (simp split: option.splits)
next
  case (3 depth env d s)
  show ?case by simp
next
  case (4 depth env d child_id rest s)
  let ?s1 = "ensure_layer env child_id s"
  show ?case
  proof
    assume k: "current s k \<noteq> None"
    then have k1: "current ?s1 k \<noteq> None"
      using ensure_layer_current(3) [of s k _ env child_id] by auto
    show "current (fst (propagate_children depth env d (child_id # rest) s)) k \<noteq> None"
    proof (cases "current ?s1 child_id")
      case None
      with k1 show ?thesis by (simp add: Let_def)
    next
      case (Some child_before)
      obtain now s2 where i: "iso_now env ?s1 = (now, s2)"
        by (cases "iso_now env ?s1") auto
      let ?after = "shift_child d now child_before"
      let ?s3 = "s2\<lparr>current := (current s2)(child_id \<mapsto> ?after)\<rparr>"
      obtain s4 r where p: "propagate_group_delta depth env child_id child_before ?after ?s3 = (s4, r)"
        by (cases "propagate_group_delta depth env child_id child_before ?after ?s3") auto
      have "current s2 = current ?s1"
        using iso_now_fields(3) [of env ?s1] i by simp
      with k1 have k3: "current ?s3 k \<noteq> None" by simp
      from 4(1) [OF refl Some i [symmetric] refl refl] p k3
      have k4: "current s4 k \<noteq> None" by simp
      show ?thesis
      proof (cases r)
        case None
        from 4(2) [OF refl Some i [symmetric] refl refl p [symmetric] None] k4
        show ?thesis by (simp add: Let_def Some i p None)
      next
        case (Some e)
        with k4 show ?thesis by (simp add: Let_def \<open>current ?s1 child_id = Some child_before\<close> i p)
      qed
    qed
  qed
qed

lemma store_set_creates:
  "current (fst (store_set env lid ps propagate s)) lid \<noteq> None"
proof -
  let ?s1 = "commit_history (ensure_layer env lid s)"
  have c1: "current ?s1 lid \<noteq> None"
    by (simp add: commit_history_def ensure_layer_current(1))
  obtain s2 r where a: "apply_direct env lid ps ?s1 = (s2, r)"
    by (cases "apply_direct env lid ps ?s1") auto
  from apply_direct_keeps [OF c1, of env lid ps] a have c2: "current s2 lid \<noteq> None" by simp
  have c3: "current (fst (propagate_group_delta n env lid old new s2)) lid \<noteq> None" for n old new
    using propagate_keeps(1) [of s2 lid n env lid old new] c2 by simp
  show ?thesis
    using c1 c2 c3
    by (auto simp: store_set_def Let_def a split: option.splits sum.splits prod.splits)
       (metis fst_conv option.distinct(1))+
qed

lemma store_set_leaf_succeeds:
  assumes "normalize_items env ps = Inr n"
    and "layer_tree s lid = None \<or> layer_tree s lid = Some [] \<or> \<not> propagate"
  shows "\<exists>applied. snd (store_set env lid ps propagate s) = Inr applied"
proof -
  let ?s1 = "commit_history (ensure_layer env lid s)"
  obtain st where c1: "current ?s1 lid = Some st"
    using ensure_layer_current(1) [of env lid s] by (auto simp: commit_history_def)
  obtain s2 r where a: "apply_direct env lid ps ?s1 = (s2, r)"
    by (cases "apply_direct env lid ps ?s1") auto
  from apply_direct_succeeds [OF assms(1), of lid ?s1] a obtain applied where r: "r = Inr applied"
    by auto
  have "layer_tree s2 = layer_tree (ensure_layer env lid ?s1)"
    using apply_direct_layer_tree [of env lid ps ?s1] a by simp
  moreover have "layer_tree ?s1 lid = Some [] \<or> \<not> propagate"
    using assms(2) ensure_layer_tree(2,3) [of s lid] by (auto simp: commit_history_def)
  ultimately have leaf: "layer_tree s2 lid = Some [] \<or> \<not> propagate"
    using ensure_layer_tree(3) [of ?s1 lid "[]" env] by auto
  show ?thesis
    using c1 leaf by (auto simp: store_set_def Let_def a r)
qed

lemma layer_full_by_id_unknown:
  "lid \<notin> layer_id ` set ls \<Longrightarrow> layer_full_by_id ls lid = Inl KeyError"
  by (auto simp: layer_full_by_id_def find_None_iff split: option.splits)

section \<open>Unknown layer ids\<close>

text \<open>
  C6 (as amended). For every layer id unknown to the store, \<open>set\<close> creates the default
  state entry (also when it then raises) and succeeds whenever the properties normalise
  and there is nothing to propagate. The store's own read \<open>get_layer_state\<close> is as
  lenient as the write: it raises nothing, creates the default entry, returns it, and
  pushes no history. The strict lookup is the service's: for an id that is not in the
  compiled layer map, \<open>get_layer_detail\<close> raises \<open>KeyError\<close>, and so does
  \<open>set_layer_state\<close>, and the service and its store are left as they were.
\<close>

theorem unknown_layer_write_and_read:
  assumes "current s lid = None"
  shows "current (fst (store_set env lid ps propagate s)) lid \<noteq> None
     \<and> (\<forall>n. normalize_items env ps = Inr n
             \<and> (layer_tree s lid = None \<or> layer_tree s lid = Some [] \<or> \<not> propagate)
           \<longrightarrow> (\<exists>applied. snd (store_set env lid ps propagate s) = Inr applied))
     \<and> snd (get_layer_state env lid s) = Inr (default_layer_state PNone (iso_at env (clock s)))
     \<and> current (fst (get_layer_state env lid s)) lid
         = Some (default_layer_state PNone (iso_at env (clock s)))
     \<and> history (fst (get_layer_state env lid s)) = history s
     \<and> (lid \<notin> layer_id ` set (rs_layers svc) \<longrightarrow>
          get_layer_detail svc lid = Inl KeyError
          \<and> set_layer_state env svc lid ps = (svc, Inl KeyError))"
proof -
  have a: "current (fst (store_set env lid ps propagate s)) lid \<noteq> None"
    by (rule store_set_creates)
  have b: "\<forall>n. normalize_items env ps = Inr n
             \<and> (layer_tree s lid = None \<or> layer_tree s lid = Some [] \<or> \<not> propagate)
           \<longrightarrow> (\<exists>applied. snd (store_set env lid ps propagate s) = Inr applied)"
    using store_set_leaf_succeeds by blast
  have c: "snd (get_layer_state env lid s) = Inr (default_layer_state PNone (iso_at env (clock s)))"
     "current (fst (get_layer_state env lid s)) lid
         = Some (default_layer_state PNone (iso_at env (clock s)))"
     "history (fst (get_layer_state env lid s)) = history s"
    using ensure_layer_unknown [OF assms, of env]
    by (simp_all add: get_layer_state_def Let_def ensure_layer_hist)
  have d: "lid \<notin> layer_id ` set (rs_layers svc) \<longrightarrow>
          get_layer_detail svc lid = Inl KeyError
          \<and> set_layer_state env svc lid ps = (svc, Inl KeyError)"
    using layer_full_by_id_unknown [of lid "rs_layers svc"]
    by (simp add: get_layer_detail_def set_layer_state_def)
  from a b c d show ?thesis by blast
qed


theorem unknown_layer_write_and_read_witness:
  "current store0 ''ghost'' = None
   \<and> current (fst (store_set env0 ''ghost'' [(''x'', PNum 1)] True store0)) ''ghost'' \<noteq> None
   \<and> (\<exists>applied. snd (store_set env0 ''ghost'' [(''x'', PNum 1)] True store0) = Inr applied)
   \<and> get_layer_detail svc_phase3 ''ghost'' = Inl KeyError
   \<and> set_layer_state env0 svc_phase3 ''ghost'' [(''x'', PNum 1)] = (svc_phase3, Inl KeyError)"
proof -
  have a: "current store0 ''ghost'' = None" and t: "layer_tree store0 ''ghost'' = None"
    by (simp_all add: store0_def)
  have n: "normalize_items env0 [(''x'', PNum 1)] = Inr [UX 1]"
    by code_simp
  have u: "''ghost'' \<notin> layer_id ` set (rs_layers svc_phase3)"
    by (simp add: svc_phase3_def phase3_doc_def layer_id_make_row stable_layer_id_def py_strip_def
          is_space_def id_char_ok_def Let_def)
  from unknown_layer_write_and_read [OF a, of env0 "[(''x'', PNum 1)]" True svc_phase3] t n u
  show ?thesis using a by blast
qed

text \<open>
  C6 as stated fails on the read: on the empty store, reading the state of an unknown
  layer returns the default state instead of raising, and the state map has an entry
  for the layer afterwards.
\<close>

theorem get_layer_state_unknown_counterexample:
  "current store0 ''ghost'' = None
   \<and> snd (get_layer_state env0 ''ghost'' store0) = Inr (default_layer_state PNone (iso_at env0 0))
   \<and> current (fst (get_layer_state env0 ''ghost'' store0)) ''ghost'' \<noteq> None"
proof -
  have a: "current store0 ''ghost'' = None"
    by (simp add: store0_def)
  have b: "snd (get_layer_state env0 ''ghost'' store0) = Inr (default_layer_state PNone (iso_at env0 0))"
    by code_simp
  have c: "current (fst (get_layer_state env0 ''ghost'' store0)) ''ghost'' \<noteq> None"
    by code_simp
  from a b c show ?thesis by simp
qed



section \<open>Rotation bounds\<close>




section \<open>Propagation through the subtree of a group\<close>













lemma law_children_scale:
  "forest_law cur cur' d ts \<Longrightarrow> scale_law cur cur' d (map root_id ts)"
proof (induction ts)
  case Nil
  show ?case by (simp add: scale_law_def)
next
  case (Cons t ts)
  obtain c kids where t: "t = LNode c kids" by (cases t) auto
  from Cons.prems t obtain b a where b: "cur c = Some b" and a: "cur' c = Some a"
    and sh: "a = shift_child d (l_lastUpdate a) b"
    by (auto split: option.splits)
  have "l_scale a = l_scale b * scale_ratio d"
    by (subst sh) (simp add: shift_child_def)
  moreover from Cons have "scale_law cur cur' d (map root_id ts)" by simp
  ultimately show ?case using b a t by (simp add: scale_law_def)
qed












end
